theory Spec2Isabelle
  imports Main "HOL-Library.AList"
begin

section \<open>The Fastify adapters for MCP servers\<close>

text \<open>
  The development embeds the two Fastify adapters of the repository:
  \<^item> \<open>registerMcpServer\<close> of \<open>src/server/fastify.ts\<close> (POST, GET and DELETE handlers and
    the \<open>onClose\<close> hook over the closure variable \<open>transportMap\<close>);
  \<^item> \<open>registerMcpRoutes\<close> and \<open>createStatelessMcpHandler\<close> of the second adapter
    (POST handler, \<open>handleSessionRequest\<close>, the stateless handler).

  The class \<open>StreamableHTTPServerTransport\<close>, Fastify and Node's \<open>ServerResponse\<close> are
  not part of the sources. What a Transport does inside \<open>handleRequest\<close> and \<open>close\<close> is
  a parameter of every handler (\<open>transport_run\<close>, \<open>close_run\<close>); the little that is fixed
  about it is modelled from the specification and marked as such.
\<close>

subsection \<open>The table: a plain JavaScript object\<close>

text \<open>
  \<open>const transportMap: Record<string, StreamableHTTPServerTransport> = {}\<close> is an ordinary
  object. Its own properties are kept as an association list in creation order. A read
  \<open>transportMap[k]\<close> that finds no own property continues in the prototype, which is
  \<open>Object.prototype\<close> unless an assignment to the key \<open>__proto__\<close> replaced it by a
  Transport object.
\<close>

datatype jsval =
    JUndefined      \<comment> \<open>\<open>undefined\<close>, or any falsy member\<close>
  | JTransport nat  \<comment> \<open>a Transport object, by its index in the heap\<close>
  | JOther          \<comment> \<open>a truthy value that has no \<open>handleRequest\<close> and no \<open>close\<close> method\<close>

datatype hook = ServerHook | RoutesHook | NoHook

record transport =
  sessionId :: "string option"
  initialized :: bool
  closed :: bool
  closeCalls :: nat
  onsessioninitialized :: hook
  onclose :: hook

record registry =
  transportMap :: "(string \<times> nat) list"
  protoT :: "nat option"
  transports :: "transport list"
  genCount :: nat

record config =
  sessionIdGenerator :: "(nat \<Rightarrow> string) option"
  transportMember :: "string \<Rightarrow> bool"
  transportEnumerable :: "string list"

text \<open>
  \<open>sessionIdGenerator\<close>: the \<open>n\<close>-th call of the configured generator returns
  \<open>g n\<close>; \<open>None\<close> is \<open>undefined\<close>. \<open>transportMember k\<close> says whether reading the
  property \<open>k\<close> on a Transport object gives a truthy value (a method or a field, which is
  not itself a Transport) and \<open>transportEnumerable\<close> are the enumerable property names of
  a Transport object: the class is not among the sources, so both are parameters. They
  matter only after the prototype of the table has been replaced.
\<close>

definition emptyRegistry :: registry where
  "emptyRegistry = \<lparr>transportMap = [], protoT = None, transports = [], genCount = 0\<rparr>"

definition objectPrototypeNames :: "string list" where
  "objectPrototypeNames =
     [''constructor'', ''__defineGetter__'', ''__defineSetter__'', ''hasOwnProperty'',
      ''__lookupGetter__'', ''__lookupSetter__'', ''isPrototypeOf'',
      ''propertyIsEnumerable'', ''toString'', ''valueOf'', ''toLocaleString'']"

definition getProp :: "config \<Rightarrow> registry \<Rightarrow> string \<Rightarrow> jsval" where
  "getProp cfg r k =
     (case map_of (transportMap r) k of
        Some t \<Rightarrow> JTransport t
      | None \<Rightarrow>
          (if k = ''__proto__'' then (case protoT r of Some t \<Rightarrow> JTransport t | None \<Rightarrow> JOther)
           else (case protoT r of
                   Some t \<Rightarrow> (if transportMember cfg k then JOther else JUndefined)
                 | None \<Rightarrow> (if k \<in> set objectPrototypeNames then JOther else JUndefined))))"

definition setProp :: "string \<Rightarrow> nat \<Rightarrow> registry \<Rightarrow> registry" where
  "setProp k t r =
     (if k = ''__proto__'' then r\<lparr>protoT := Some t\<rparr>
      else r\<lparr>transportMap := AList.update k t (transportMap r)\<rparr>)"

definition deleteProp :: "string \<Rightarrow> registry \<Rightarrow> registry" where
  "deleteProp k r = r\<lparr>transportMap := AList.delete k (transportMap r)\<rparr>"

definition truthy :: "jsval \<Rightarrow> bool" where
  "truthy v = (v \<noteq> JUndefined)"

text \<open>A header value \<open>string | undefined\<close> is truthy when it is a non-empty string.\<close>

definition truthyStr :: "string option \<Rightarrow> bool" where
  "truthyStr h = (case h of None \<Rightarrow> False | Some s \<Rightarrow> s \<noteq> [])"


subsection \<open>The raw response and Fastify's reply\<close>

datatype payload =
    Envelope int string   \<comment> \<open>\<open>{jsonrpc: "2.0", error: {code, message}, id: null}\<close>\<close>
  | PlainText string
  | FastifyError          \<comment> \<open>the body of Fastify's default error handler\<close>
  | TransportData         \<comment> \<open>bytes written by the Transport\<close>

record raw_response =
  head :: "(nat \<times> string option) option"
  statusCode :: nat
  chunks :: "payload list"
  writableEnded :: bool

text \<open>
  \<open>head\<close> is the status line and the \<open>mcp-session-id\<close> header once they are fixed:
  Node's \<open>writeHead\<close> throws \<open>ERR_HTTP_HEADERS_SENT\<close> when the head is already stored,
  and \<open>write\<close> and \<open>end\<close> store it from \<open>statusCode\<close> when it is not.
\<close>

definition freshRaw :: raw_response where
  "freshRaw = \<lparr>head = None, statusCode = 200, chunks = [], writableEnded = False\<rparr>"

definition writeHead :: "nat \<Rightarrow> string option \<Rightarrow> raw_response \<Rightarrow> raw_response option" where
  "writeHead s h raw =
     (if head raw \<noteq> None then None else Some (raw\<lparr>head := Some (s, h), statusCode := s\<rparr>))"

definition implicitHead :: "raw_response \<Rightarrow> raw_response" where
  "implicitHead raw =
     (if head raw = None then raw\<lparr>head := Some (statusCode raw, None)\<rparr> else raw)"

definition rawWrite :: "payload \<Rightarrow> raw_response \<Rightarrow> raw_response" where
  "rawWrite p raw =
     (if writableEnded raw then raw
      else (implicitHead raw)\<lparr>chunks := chunks raw @ [p]\<rparr>)"

definition rawEnd :: "raw_response \<Rightarrow> raw_response" where
  "rawEnd raw = (if writableEnded raw then raw else (implicitHead raw)\<lparr>writableEnded := True\<rparr>)"

text \<open>
  \<open>reply.code(s).send(p)\<close>. Fastify writes the head and the payload and ends the
  response. When the reply is already sent Fastify ignores the call, and when the head is
  already stored Node refuses the new one: in both cases the response stays as it is.
  \<open>reply.sent\<close> is read as \<open>raw.writableEnded\<close>.
\<close>

definition replySend :: "nat \<Rightarrow> payload \<Rightarrow> raw_response \<Rightarrow> raw_response" where
  "replySend s p raw =
     (if writableEnded raw \<or> head raw \<noteq> None then raw
      else raw\<lparr>head := Some (s, None), statusCode := s, chunks := chunks raw @ [p],
               writableEnded := True\<rparr>)"

definition observedStatus :: "raw_response \<Rightarrow> nat option" where
  "observedStatus raw = map_option fst (head raw)"

definition sessionHeader :: "raw_response \<Rightarrow> string option" where
  "sessionHeader raw = (case head raw of None \<Rightarrow> None | Some (s, h) \<Rightarrow> h)"

subsection \<open>The Transport, as far as the adapters depend on it\<close>

datatype raw_action = WriteHead nat | Write | End

record transport_run =
  initializes :: bool
  acts :: "raw_action list"
  closes :: bool
  throws :: bool

record close_run =
  closeFails :: bool
  oncloseBeforeFailure :: bool

record env =
  connectFails :: bool
  run :: transport_run
  closing :: close_run

text \<open>
  A \<open>transport_run\<close> is what the Transport does in one call of \<open>handleRequest\<close>: whether
  it accepts an initialization message, what it does to the raw response, whether it closes
  itself, whether the call throws. A \<open>close_run\<close> says whether \<open>close()\<close> throws and whether
  the on-close notification was given before it threw. \<open>connectFails\<close>: the server
  factory or \<open>server.connect(transport)\<close> throws.
\<close>

definition newTransport :: "hook \<Rightarrow> hook \<Rightarrow> transport" where
  "newTransport hi hc =
     \<lparr>sessionId = None, initialized = False, closed = False, closeCalls = 0,
      onsessioninitialized = hi, onclose = hc\<rparr>"

definition updTransport :: "nat \<Rightarrow> (transport \<Rightarrow> transport) \<Rightarrow> registry \<Rightarrow> registry" where
  "updTransport t f r = r\<lparr>transports := (transports r)[t := f (transports r ! t)]\<rparr>"

text \<open>
  The hooks the adapters install. \<open>registerMcpServer\<close>:
  \<^verbatim>\<open>onsessioninitialized: (sid) => { if (sid) { transportMap[sid] = transport; } }\<close> and
  \<^verbatim>\<open>onclose = () => { const sid = transport.sessionId;
     if (sid && transportMap[sid]) { delete transportMap[sid]; } }\<close>.
  \<open>registerMcpRoutes\<close>: \<^verbatim>\<open>(sid) => { transports[sid] = transport; }\<close> and
  \<^verbatim>\<open>() => { if (transport.sessionId) { delete transports[transport.sessionId]; } }\<close>.
\<close>

definition runOnsessioninitialized :: "nat \<Rightarrow> string \<Rightarrow> registry \<Rightarrow> registry" where
  "runOnsessioninitialized t sid r =
     (case onsessioninitialized (transports r ! t) of
        ServerHook \<Rightarrow> (if sid \<noteq> [] then setProp sid t r else r)
      | RoutesHook \<Rightarrow> setProp sid t r
      | NoHook \<Rightarrow> r)"

definition runOnclose :: "config \<Rightarrow> nat \<Rightarrow> registry \<Rightarrow> registry" where
  "runOnclose cfg t r =
     (let sid = sessionId (transports r ! t) in
      case onclose (transports r ! t) of
        ServerHook \<Rightarrow>
          (if truthyStr sid \<and> truthy (getProp cfg r (the sid)) then deleteProp (the sid) r else r)
      | RoutesHook \<Rightarrow> (if truthyStr sid then deleteProp (the sid) r else r)
      | NoHook \<Rightarrow> r)"

text \<open>
  Modelled from the spec: the session initialization of \<open>StreamableHTTPServerTransport\<close>
  (\<open>streamableHttp.ts\<close> is not among the sources). "The Transport synchronously creates
  and assigns a new session identifier (via an injected generator function) and notifies an
  on-session-initialized callback so the Registry can index it; if a generator is not
  provided (stateless mode) it remains without an identifier."
\<close>

definition initializeSession :: "(nat \<Rightarrow> string) option \<Rightarrow> nat \<Rightarrow> registry \<Rightarrow> registry" where
  "initializeSession gen t r =
     (case gen of
        None \<Rightarrow> updTransport t (\<lambda>tr. tr\<lparr>initialized := True\<rparr>) r
      | Some g \<Rightarrow>
          (let sid = g (genCount r);
               r1 = updTransport t (\<lambda>tr. tr\<lparr>sessionId := Some sid, initialized := True\<rparr>)
                      (r\<lparr>genCount := Suc (genCount r)\<rparr>)
           in runOnsessioninitialized t sid r1))"

text \<open>
  Modelled from the spec: \<open>close()\<close> of \<open>StreamableHTTPServerTransport\<close>. "Closure is
  idempotent and must \<dots> invoke an on-close notification exactly once." A close that throws
  before the notification leaves the Transport open.
\<close>

definition transportClose :: "config \<Rightarrow> close_run \<Rightarrow> nat \<Rightarrow> registry \<Rightarrow> registry \<times> bool" where
  "transportClose cfg cr t r =
     (let r1 = updTransport t (\<lambda>tr. tr\<lparr>closeCalls := Suc (closeCalls tr)\<rparr>) r in
      if closed (transports r ! t) then (r1, False)
      else if closeFails cr \<and> \<not> oncloseBeforeFailure cr then (r1, True)
      else (runOnclose cfg t (updTransport t (\<lambda>tr. tr\<lparr>closed := True\<rparr>) r1), closeFails cr))"

fun runActs :: "string option \<Rightarrow> raw_action list \<Rightarrow> raw_response \<Rightarrow> raw_response \<times> bool" where
  "runActs sid [] raw = (raw, False)"
| "runActs sid (WriteHead s # as) raw =
     (case writeHead s sid raw of None \<Rightarrow> (raw, True) | Some raw' \<Rightarrow> runActs sid as raw')"
| "runActs sid (Write # as) raw = runActs sid as (rawWrite TransportData raw)"
| "runActs sid (End # as) raw = runActs sid as (rawEnd raw)"

text \<open>
  Modelled from the spec: \<open>handleRequest\<close> of \<open>StreamableHTTPServerTransport\<close>. An
  Uninitialized Transport that accepts an initialization message initializes the session;
  the reply surfaces the session identifier, once one exists, in its session header. The
  rest of the call is the parameter \<open>run\<close>. The result is the registry, the raw response
  and whether the call threw.
\<close>

definition handleRequest ::
  "config \<Rightarrow> (nat \<Rightarrow> string) option \<Rightarrow> transport_run \<Rightarrow> bool \<Rightarrow> nat \<Rightarrow> registry \<Rightarrow> raw_response
     \<Rightarrow> registry \<times> raw_response \<times> bool" where
  "handleRequest cfg gen tr isInit t r raw =
     (let r1 = (if initializes tr \<and> isInit \<and> \<not> initialized (transports r ! t)
                then initializeSession gen t r else r);
          sid = sessionId (transports r1 ! t);
          (raw1, failed) = runActs (if truthyStr sid then sid else None) (acts tr) raw;
          r2 = (if closes tr \<and> \<not> failed
                then fst (transportClose cfg \<lparr>closeFails = False, oncloseBeforeFailure = False\<rparr> t r1)
                else r1)
      in (r2, raw1, failed \<or> throws tr))"

subsection \<open>\<open>registerMcpServer\<close>\<close>

record outcome =
  reg :: registry
  resp :: raw_response
  routed :: "nat option"

text \<open>
  The result of a handler: the registry afterwards, the response, and the Transport whose
  \<open>handleRequest\<close> the handler called, if it called one.
\<close>

definition noValidSession :: payload where
  "noValidSession = Envelope (- 32000) ''Bad Request: No valid session ID provided''"

definition internalError :: payload where
  "internalError = Envelope (- 32603) ''Internal server error''"

definition handleFastifyRequest ::
  "config \<Rightarrow> transport_run \<Rightarrow> bool \<Rightarrow> nat \<Rightarrow> registry \<Rightarrow> raw_response
     \<Rightarrow> registry \<times> raw_response \<times> bool" where
  "handleFastifyRequest cfg tr isInit t r raw =
     handleRequest cfg (sessionIdGenerator cfg) tr isInit t r raw"

text \<open>The \<open>catch\<close> block of the POST handler: \<open>if (!reply.sent) reply.code(500).send(\<dots>)\<close>.\<close>

definition catchPost :: "raw_response \<Rightarrow> raw_response" where
  "catchPost raw = (if \<not> writableEnded raw then replySend 500 internalError raw else raw)"

definition postHandler :: "config \<Rightarrow> env \<Rightarrow> string option \<Rightarrow> bool \<Rightarrow> registry \<Rightarrow> outcome" where
  "postHandler cfg e sid isInit r =
     (if truthyStr sid \<and> truthy (getProp cfg r (the sid)) then
        (case getProp cfg r (the sid) of
           JTransport t \<Rightarrow>
             (let (r1, raw1, threw) = handleFastifyRequest cfg (run e) isInit t r freshRaw
              in \<lparr>reg = r1, resp = (if threw then catchPost raw1 else raw1), routed = Some t\<rparr>)
         | _ \<Rightarrow> \<lparr>reg = r, resp = catchPost freshRaw, routed = None\<rparr>)
      else if \<not> truthyStr sid \<and> isInit then
        (let t = length (transports r);
             r0 = r\<lparr>transports := transports r @ [newTransport ServerHook ServerHook]\<rparr>
         in if connectFails e then \<lparr>reg = r0, resp = catchPost freshRaw, routed = None\<rparr>
            else (let (r1, raw1, threw) = handleFastifyRequest cfg (run e) isInit t r0 freshRaw
                  in \<lparr>reg = r1, resp = (if threw then catchPost raw1 else raw1),
                      routed = Some t\<rparr>))
      else \<lparr>reg = r, resp = replySend 400 noValidSession freshRaw, routed = None\<rparr>)"

text \<open>
  In the first branch a truthy value that is not a Transport (a member of
  \<open>Object.prototype\<close>) has no \<open>handleRequest\<close>: the call throws a \<open>TypeError\<close> inside the
  \<open>try\<close>.

  The GET handler writes the head before it enters its \<open>try\<close>; both the normal path and the
  \<open>catch\<close> end the response when it is not ended.
\<close>

definition invalidSession :: payload where
  "invalidSession = PlainText ''Invalid or missing session ID''"

definition endIfOpen :: "raw_response \<Rightarrow> raw_response" where
  "endIfOpen raw = (if \<not> writableEnded raw then rawEnd raw else raw)"

definition getHandler :: "config \<Rightarrow> env \<Rightarrow> string option \<Rightarrow> registry \<Rightarrow> outcome" where
  "getHandler cfg e sid r =
     (if \<not> truthyStr sid \<or> \<not> truthy (getProp cfg r (the sid)) then
        \<lparr>reg = r, resp = replySend 400 invalidSession freshRaw, routed = None\<rparr>
      else
        (case getProp cfg r (the sid) of
           JTransport t \<Rightarrow>
             (let tsid = sessionId (transports r ! t) in
              case writeHead 200 (if truthyStr tsid then tsid else None) freshRaw of
                None \<Rightarrow> \<lparr>reg = r, resp = replySend 500 FastifyError freshRaw, routed = None\<rparr>
              | Some raw0 \<Rightarrow>
                  (let (r1, raw1, threw) =
                         handleRequest cfg (sessionIdGenerator cfg) (run e) False t r raw0
                   in \<lparr>reg = r1, resp = endIfOpen raw1, routed = Some t\<rparr>))
         | _ \<Rightarrow>
             (case writeHead 200 None freshRaw of
                None \<Rightarrow> \<lparr>reg = r, resp = replySend 500 FastifyError freshRaw, routed = None\<rparr>
              | Some raw0 \<Rightarrow> \<lparr>reg = r, resp = endIfOpen raw0, routed = None\<rparr>)))"

definition terminationError :: payload where
  "terminationError = PlainText ''Error processing session termination''"

definition catchDelete :: "raw_response \<Rightarrow> raw_response" where
  "catchDelete raw = (if \<not> writableEnded raw then replySend 500 terminationError raw else raw)"

definition deleteHandler :: "config \<Rightarrow> env \<Rightarrow> string option \<Rightarrow> registry \<Rightarrow> outcome" where
  "deleteHandler cfg e sid r =
     (if \<not> truthyStr sid \<or> \<not> truthy (getProp cfg r (the sid)) then
        \<lparr>reg = r, resp = replySend 400 invalidSession freshRaw, routed = None\<rparr>
      else
        (case getProp cfg r (the sid) of
           JTransport t \<Rightarrow>
             (let (r1, threw) = transportClose cfg (closing e) t r in
              if threw then \<lparr>reg = r1, resp = catchDelete freshRaw, routed = None\<rparr>
              else \<lparr>reg = deleteProp (the sid) r1,
                    resp = endIfOpen (freshRaw\<lparr>statusCode := 200\<rparr>), routed = None\<rparr>)
         | _ \<Rightarrow> \<lparr>reg = r, resp = catchDelete freshRaw, routed = None\<rparr>))"

text \<open>
  The \<open>onClose\<close> hook:
  \<^verbatim>\<open>for (const sessionId in transportMap) {
     try { await transportMap[sessionId].close(); delete transportMap[sessionId]; }
     catch (error) { } }\<close>
  \<open>for\<dots>in\<close> takes the keys when the loop starts: the own keys that are array indices in
  ascending order, then the other own keys in creation order, then the enumerable keys of
  the prototype chain. A key whose property is gone when its turn comes is skipped.
\<close>

definition isDigit :: "char \<Rightarrow> bool" where
  "isDigit c = (48 \<le> (of_char c :: nat) \<and> (of_char c :: nat) \<le> 57)"

definition strToNat :: "string \<Rightarrow> nat" where
  "strToNat s = foldl (\<lambda>a c. 10 * a + ((of_char c :: nat) - 48)) 0 s"

definition isArrayIndex :: "string \<Rightarrow> bool" where
  "isArrayIndex s =
     (s \<noteq> [] \<and> list_all isDigit s \<and> (length s = 1 \<or> hd s \<noteq> CHR ''0'')
      \<and> strToNat s < 4294967295)"

definition forInKeys :: "config \<Rightarrow> registry \<Rightarrow> string list" where
  "forInKeys cfg r =
     (let own = map fst (transportMap r) in
      sort_key strToNat (filter isArrayIndex own) @ filter (\<lambda>k. \<not> isArrayIndex k) own @
      (case protoT r of
         None \<Rightarrow> []
       | Some t \<Rightarrow> filter (\<lambda>k. k \<notin> set own) (remdups (transportEnumerable cfg))))"

definition present :: "config \<Rightarrow> registry \<Rightarrow> string \<Rightarrow> bool" where
  "present cfg r k =
     (map_of (transportMap r) k \<noteq> None \<or> (protoT r \<noteq> None \<and> k \<in> set (transportEnumerable cfg)))"

definition shutdownBody :: "config \<Rightarrow> (nat \<Rightarrow> close_run) \<Rightarrow> string \<Rightarrow> registry \<Rightarrow> registry" where
  "shutdownBody cfg cl k r =
     (case getProp cfg r k of
        JTransport t \<Rightarrow>
          (let (r1, threw) = transportClose cfg (cl t) t r in
           if threw then r1 else deleteProp k r1)
      | _ \<Rightarrow> r)"

fun shutdownLoop :: "config \<Rightarrow> (nat \<Rightarrow> close_run) \<Rightarrow> string list \<Rightarrow> registry \<Rightarrow> registry" where
  "shutdownLoop cfg cl [] r = r"
| "shutdownLoop cfg cl (k # ks) r =
     shutdownLoop cfg cl ks (if present cfg r k then shutdownBody cfg cl k r else r)"

definition onCloseHook :: "config \<Rightarrow> (nat \<Rightarrow> close_run) \<Rightarrow> registry \<Rightarrow> registry" where
  "onCloseHook cfg cl r = shutdownLoop cfg cl (forInKeys cfg r) r"

text \<open>
  What can happen to the registry of \<open>registerMcpServer\<close>: a request, a Transport that
  closes by itself (its connection is lost), the shutdown of the Fastify instance.
\<close>

datatype event =
    Post "string option" bool env
  | Get "string option" env
  | Delete "string option" env
  | TransportCloses nat close_run
  | Shutdown "nat \<Rightarrow> close_run"

definition silent :: "registry \<Rightarrow> outcome" where
  "silent r = \<lparr>reg = r, resp = freshRaw, routed = None\<rparr>"

fun step :: "config \<Rightarrow> event \<Rightarrow> registry \<Rightarrow> outcome" where
  "step cfg (Post sid isInit e) r = postHandler cfg e sid isInit r"
| "step cfg (Get sid e) r = getHandler cfg e sid r"
| "step cfg (Delete sid e) r = deleteHandler cfg e sid r"
| "step cfg (TransportCloses t cr) r =
     (if t < length (transports r) then silent (fst (transportClose cfg cr t r)) else silent r)"
| "step cfg (Shutdown cl) r = silent (onCloseHook cfg cl r)"

fun exec :: "config \<Rightarrow> event list \<Rightarrow> registry \<Rightarrow> registry" where
  "exec cfg [] r = r"
| "exec cfg (ev # evs) r = exec cfg evs (reg (step cfg ev r))"

subsection \<open>\<open>registerMcpRoutes\<close>\<close>

text \<open>
  \<^verbatim>\<open>const { route = "/mcp", sessionIdGenerator = () => randomUUID(), \<dots> } = options;\<close>
  A property of the options object is absent, present with the value \<open>undefined\<close>, or
  present with a value. A destructuring default replaces every value that is \<open>undefined\<close>.
\<close>

datatype 'a js_prop = Absent | Undefined | Defined 'a

record options =
  route :: "string js_prop"
  optSessionIdGenerator :: "(nat \<Rightarrow> string) js_prop"
  enableJsonResponse :: "bool js_prop"

definition withDefault :: "'a js_prop \<Rightarrow> 'a option \<Rightarrow> 'a option" where
  "withDefault p d = (case p of Defined v \<Rightarrow> Some v | _ \<Rightarrow> d)"

text \<open>
  \<open>routesConfig\<close> is the variable \<open>sessionIdGenerator\<close> of the closure of
  \<open>registerMcpRoutes\<close>; \<open>randomUUID\<close> (of \<open>node:crypto\<close>) is a parameter.
\<close>

definition routesGenerator :: "(nat \<Rightarrow> string) \<Rightarrow> options \<Rightarrow> (nat \<Rightarrow> string) option" where
  "routesGenerator randomUUID opts = withDefault (optSessionIdGenerator opts) (Some randomUUID)"

definition routesConfig :: "(nat \<Rightarrow> string) \<Rightarrow> options \<Rightarrow> config \<Rightarrow> config" where
  "routesConfig randomUUID opts cfg =
     cfg\<lparr>sessionIdGenerator := routesGenerator randomUUID opts\<rparr>"

text \<open>
  Neither handler of this adapter has a \<open>try\<close>: when the handler throws, Fastify's
  default error handler replies with status 500.
\<close>

definition fastifyReject :: "raw_response \<Rightarrow> raw_response" where
  "fastifyReject raw = replySend 500 FastifyError raw"

definition routesPost :: "config \<Rightarrow> env \<Rightarrow> string option \<Rightarrow> bool \<Rightarrow> registry \<Rightarrow> outcome" where
  "routesPost cfg e sid isInit r =
     (if truthyStr sid \<and> truthy (getProp cfg r (the sid)) then
        (case getProp cfg r (the sid) of
           JTransport t \<Rightarrow>
             (let (r1, raw1, threw) =
                    handleRequest cfg (sessionIdGenerator cfg) (run e) isInit t r freshRaw
              in \<lparr>reg = r1, resp = (if threw then fastifyReject raw1 else raw1),
                  routed = Some t\<rparr>)
         | _ \<Rightarrow> \<lparr>reg = r, resp = fastifyReject freshRaw, routed = None\<rparr>)
      else if \<not> truthyStr sid \<and> isInit then
        (let t = length (transports r);
             h = (if sessionIdGenerator cfg \<noteq> None then RoutesHook else NoHook);
             r0 = r\<lparr>transports := transports r @ [newTransport h h]\<rparr>
         in if connectFails e then \<lparr>reg = r0, resp = fastifyReject freshRaw, routed = None\<rparr>
            else (let (r1, raw1, threw) =
                        handleRequest cfg (sessionIdGenerator cfg) (run e) isInit t r0 freshRaw
                  in \<lparr>reg = r1, resp = (if threw then fastifyReject raw1 else raw1),
                      routed = Some t\<rparr>))
      else \<lparr>reg = r, resp = replySend 400 noValidSession freshRaw, routed = None\<rparr>)"

definition methodNotAllowed :: payload where
  "methodNotAllowed = Envelope (- 32000) ''Method not allowed in stateless mode''"

definition handleSessionRequest :: "config \<Rightarrow> env \<Rightarrow> string option \<Rightarrow> registry \<Rightarrow> outcome" where
  "handleSessionRequest cfg e sid r =
     (if sessionIdGenerator cfg = None then
        \<lparr>reg = r, resp = replySend 405 methodNotAllowed freshRaw, routed = None\<rparr>
      else if \<not> truthyStr sid \<or> \<not> truthy (getProp cfg r (the sid)) then
        \<lparr>reg = r, resp = replySend 400 invalidSession freshRaw, routed = None\<rparr>
      else
        (case getProp cfg r (the sid) of
           JTransport t \<Rightarrow>
             (let (r1, raw1, threw) =
                    handleRequest cfg (sessionIdGenerator cfg) (run e) False t r freshRaw
              in \<lparr>reg = r1, resp = (if threw then fastifyReject raw1 else raw1),
                  routed = Some t\<rparr>)
         | _ \<Rightarrow> \<lparr>reg = r, resp = fastifyReject freshRaw, routed = None\<rparr>))"

text \<open>GET and DELETE of \<open>registerMcpRoutes\<close> are both \<open>handleSessionRequest\<close>.\<close>

definition routesSession ::
  "(nat \<Rightarrow> string) \<Rightarrow> options \<Rightarrow> config \<Rightarrow> env \<Rightarrow> string option \<Rightarrow> registry \<Rightarrow> outcome" where
  "routesSession randomUUID opts cfg e sid r =
     handleSessionRequest (routesConfig randomUUID opts cfg) e sid r"

text \<open>
  What can happen to the registry of \<open>registerMcpRoutes\<close>: a request (GET and DELETE are
  both \<open>handleSessionRequest\<close>) and a Transport that closes by itself. The adapter adds no
  \<open>onClose\<close> hook, so the shutdown of the Fastify instance leaves the table as it is.
\<close>

fun routesStep :: "config \<Rightarrow> event \<Rightarrow> registry \<Rightarrow> outcome" where
  "routesStep cfg (Post sid isInit e) r = routesPost cfg e sid isInit r"
| "routesStep cfg (Get sid e) r = handleSessionRequest cfg e sid r"
| "routesStep cfg (Delete sid e) r = handleSessionRequest cfg e sid r"
| "routesStep cfg (TransportCloses t cr) r =
     (if t < length (transports r) then silent (fst (transportClose cfg cr t r)) else silent r)"
| "routesStep cfg (Shutdown cl) r = silent r"

fun routesExec :: "config \<Rightarrow> event list \<Rightarrow> registry \<Rightarrow> registry" where
  "routesExec cfg [] r = r"
| "routesExec cfg (ev # evs) r = routesExec cfg evs (reg (routesStep cfg ev r))"

subsection \<open>\<open>createStatelessMcpHandler\<close>\<close>

text \<open>
  The handler creates a server and a Transport for each request and registers a listener
  for the \<open>close\<close> event of the request:
  \<^verbatim>\<open>request.raw.on("close", () => { transport.close(); server.close(); });\<close>
  The state holds the Transports created so far, how often \<open>close()\<close> was called on each
  server, and the listeners by request. \<open>getServerFails\<close>: the factory throws.
\<close>

record stateless =
  heap :: registry
  serverCloseCalls :: "nat list"
  closeListeners :: "(nat \<times> nat \<times> nat) list"

record stateless_env =
  getServerFails :: bool
  serverConnectFails :: bool
  statelessRun :: transport_run

definition statelessHandler ::
  "config \<Rightarrow> stateless_env \<Rightarrow> nat \<Rightarrow> bool \<Rightarrow> stateless \<Rightarrow> stateless \<times> raw_response" where
  "statelessHandler cfg e req isInit st =
     (if getServerFails e then (st, catchPost freshRaw)
      else
        (let srv = length (serverCloseCalls st);
             t = length (transports (heap st));
             st1 = st\<lparr>serverCloseCalls := serverCloseCalls st @ [0],
                      heap := (heap st)\<lparr>transports :=
                                 transports (heap st) @ [newTransport NoHook NoHook]\<rparr>,
                      closeListeners := closeListeners st @ [(req, t, srv)]\<rparr>
         in if serverConnectFails e then (st1, catchPost freshRaw)
            else (let (h1, raw1, threw) =
                        handleRequest cfg None (statelessRun e) isInit t (heap st1) freshRaw
                  in (st1\<lparr>heap := h1\<rparr>, if threw then catchPost raw1 else raw1))))"

text \<open>
  The \<open>close\<close> event of request \<open>req\<close>: every listener registered on it runs.
  \<open>transport.close()\<close> is not awaited, so a close that fails does not keep
  \<open>server.close()\<close> from being called.
\<close>

fun fireListeners ::
  "config \<Rightarrow> (nat \<Rightarrow> close_run) \<Rightarrow> nat \<Rightarrow> (nat \<times> nat \<times> nat) list \<Rightarrow> stateless \<Rightarrow> stateless" where
  "fireListeners cfg cl req [] st = st"
| "fireListeners cfg cl req ((q, t, srv) # ls) st =
     fireListeners cfg cl req ls
       (if q = req
        then st\<lparr>heap := fst (transportClose cfg (cl t) t (heap st)),
                serverCloseCalls := (serverCloseCalls st)[srv := Suc (serverCloseCalls st ! srv)]\<rparr>
        else st)"


text \<open>
  The handler in two parts. \<open>statelessBegin\<close> is its synchronous start after
  \<open>getServer()\<close>: the server and the Transport exist and the listener is registered.
  \<open>statelessFinish\<close> is the rest: \<open>server.connect\<close>, \<open>handleRequest\<close> and the \<open>catch\<close>.
  The connection of a request that the handler has taken up closes while the handler
  awaits \<open>connect\<close> or \<open>handleRequest\<close>, or after the handler has returned.
\<close>

definition statelessBegin :: "nat \<Rightarrow> stateless \<Rightarrow> stateless" where
  "statelessBegin req st =
     st\<lparr>serverCloseCalls := serverCloseCalls st @ [0],
        heap := (heap st)\<lparr>transports := transports (heap st) @ [newTransport NoHook NoHook]\<rparr>,
        closeListeners := closeListeners st @
          [(req, length (transports (heap st)), length (serverCloseCalls st))]\<rparr>"

definition statelessFinish ::
  "config \<Rightarrow> stateless_env \<Rightarrow> bool \<Rightarrow> nat \<Rightarrow> stateless \<Rightarrow> stateless \<times> raw_response" where
  "statelessFinish cfg e isInit t st1 =
     (if serverConnectFails e then (st1, catchPost freshRaw)
      else (let (h1, raw1, threw) =
                  handleRequest cfg None (statelessRun e) isInit t (heap st1) freshRaw
            in (st1\<lparr>heap := h1\<rparr>, if threw then catchPost raw1 else raw1)))"



subsection \<open>Concrete configurations and runs\<close>

text \<open>
  A generator whose \<open>n\<close>-th value is \<open>n + 1\<close> letters \<open>a\<close> (all values differ), and a
  Transport run that accepts the initialization and answers with an event stream.
\<close>

definition uuidConfig :: config where
  "uuidConfig = \<lparr>sessionIdGenerator = Some (\<lambda>n. replicate (Suc n) CHR ''a''),
                 transportMember = (\<lambda>k. False), transportEnumerable = []\<rparr>"

definition statelessConfig :: config where
  "statelessConfig = \<lparr>sessionIdGenerator = None,
                      transportMember = (\<lambda>k. False), transportEnumerable = []\<rparr>"

definition closeOk :: close_run where
  "closeOk = \<lparr>closeFails = False, oncloseBeforeFailure = False\<rparr>"

definition closeBroken :: close_run where
  "closeBroken = \<lparr>closeFails = True, oncloseBeforeFailure = False\<rparr>"

definition sseRun :: transport_run where
  "sseRun = \<lparr>initializes = True, acts = [WriteHead 200, Write, End], closes = False,
             throws = False\<rparr>"

definition sseEnv :: env where
  "sseEnv = \<lparr>connectFails = False, run = sseRun, closing = closeOk\<rparr>"

definition undefinedGenerator :: options where
  "undefinedGenerator =
     \<lparr>route = Absent, optSessionIdGenerator = Undefined, enableJsonResponse = Absent\<rparr>"


definition oneSession :: registry where
  "oneSession = reg (postHandler uuidConfig sseEnv None True emptyRegistry)"

text \<open>
  A Transport run that writes a head of its own and throws, and a stateless request whose
  Transport throws after it has begun to stream, on a server that has handled no request
  before.
\<close>

definition brokenRun :: transport_run where
  "brokenRun = \<lparr>initializes = False, acts = [WriteHead 500, Write], closes = False,
                throws = True\<rparr>"

definition faultyEnv :: env where
  "faultyEnv = \<lparr>connectFails = False, run = brokenRun, closing = closeOk\<rparr>"



text \<open>
  A generator of unique values whose first value is \<open>constructor\<close>, the name of a member
  of \<open>Object.prototype\<close>.
\<close>

definition constructorGenerator :: "nat \<Rightarrow> string" where
  "constructorGenerator n = (if n = 0 then ''constructor'' else replicate n CHR ''a'')"

definition constructorConfig :: config where
  "constructorConfig = \<lparr>sessionIdGenerator = Some constructorGenerator,
                        transportMember = (\<lambda>k. False), transportEnumerable = []\<rparr>"

subsection \<open>Invariants of the registry\<close>

text \<open>
  \<open>tableOk\<close>: every entry of the table has a non-empty key other than \<open>__proto__\<close>
  and refers to a Transport that exists, was assigned the key as its session identifier
  and is not closed; a Transport that has become the prototype of the table exists, is
  initialized and was assigned \<open>__proto__\<close>; every Transport carries the hooks of
  \<open>registerMcpServer\<close>.
\<close>

definition tableOk :: "registry \<Rightarrow> bool" where
  "tableOk r =
     ((\<forall>t. protoT r = Some t \<longrightarrow>
         t < length (transports r) \<and> initialized (transports r ! t) \<and>
         sessionId (transports r ! t) = Some ''__proto__'') \<and>
      distinct (map fst (transportMap r)) \<and>
      (\<forall>k t. map_of (transportMap r) k = Some t \<longrightarrow>
         k \<noteq> [] \<and> k \<noteq> ''__proto__'' \<and> t < length (transports r) \<and>
         sessionId (transports r ! t) = Some k \<and> \<not> closed (transports r ! t)) \<and>
      (\<forall>t < length (transports r).
         onclose (transports r ! t) = ServerHook \<and>
         onsessioninitialized (transports r ! t) = ServerHook \<and>
         (sessionId (transports r ! t) \<noteq> None \<longrightarrow> initialized (transports r ! t))))"

text \<open>
  \<open>tableBase\<close>: what holds of the table whichever hooks the Transports carry. A Transport
  that has become the prototype of the table exists and was assigned an identifier; the
  keys are distinct; every entry refers to a Transport that exists and was assigned the key
  as its session identifier; a Transport that was assigned an identifier is initialized.
\<close>

definition tableBase :: "registry \<Rightarrow> bool" where
  "tableBase r =
     ((\<forall>t. protoT r = Some t \<longrightarrow>
         t < length (transports r) \<and> sessionId (transports r ! t) \<noteq> None) \<and>
      distinct (map fst (transportMap r)) \<and>
      (\<forall>k t. map_of (transportMap r) k = Some t \<longrightarrow>
         t < length (transports r) \<and> sessionId (transports r ! t) = Some k) \<and>
      (\<forall>t < length (transports r).
         sessionId (transports r ! t) \<noteq> None \<longrightarrow> initialized (transports r ! t)))"

text \<open>
  \<open>survives cl (k, t)\<close>: \<open>close()\<close> of the Transport \<open>t\<close> throws before the on-close
  notification is given.
\<close>

definition survives :: "(nat \<Rightarrow> close_run) \<Rightarrow> string \<times> nat \<Rightarrow> bool" where
  "survives cl p = (closeFails (cl (snd p)) \<and> \<not> oncloseBeforeFailure (cl (snd p)))"

text \<open>
  \<open>sids\<close>: the session identifiers of the Transports created so far. \<open>sessionsOk g\<close>:
  every identifier that a Transport was assigned is a value the generator \<open>g\<close> has
  returned, and no two Transports were assigned the same identifier.
\<close>

definition sids :: "registry \<Rightarrow> string option list" where
  "sids r = map sessionId (transports r)"

definition sessionsOk :: "(nat \<Rightarrow> string) \<Rightarrow> registry \<Rightarrow> bool" where
  "sessionsOk g r =
     ((\<forall>t < length (sids r). \<forall>k. sids r ! t = Some k \<longrightarrow> (\<exists>i < genCount r. k = g i)) \<and>
      (\<forall>t < length (sids r). \<forall>t' < length (sids r).
         sids r ! t = sids r ! t' \<and> sids r ! t \<noteq> None \<longrightarrow> t = t'))"

text \<open>
  \<open>retired g i\<close>: the identifier \<open>g i\<close> has been issued and is no key of the table,
  whose prototype is \<open>Object.prototype\<close>. \<open>neverProto g\<close>: the generator never returns
  \<open>__proto__\<close>, the one key whose assignment replaces the prototype of the table instead of
  creating an entry.
\<close>

definition retired :: "(nat \<Rightarrow> string) \<Rightarrow> nat \<Rightarrow> registry \<Rightarrow> bool" where
  "retired g i r =
     (protoT r = None \<and> map_of (transportMap r) (g i) = None \<and> i < genCount r)"

definition neverProto :: "(nat \<Rightarrow> string) \<Rightarrow> bool" where
  "neverProto g = (\<forall>n. g n \<noteq> ''__proto__'')"

text \<open>
  \<open>onlyCloses r r'\<close>: from \<open>r\<close> to \<open>r'\<close> no entry was added to the table, and every entry
  that is gone belongs to a Transport on which \<open>close()\<close> was called in between and
  which is Closed in \<open>r'\<close>.
\<close>

definition onlyCloses :: "registry \<Rightarrow> registry \<Rightarrow> bool" where
  "onlyCloses r r' =
     (length (transports r) \<le> length (transports r') \<and>
      (\<forall>k t. map_of (transportMap r') k = Some t \<longrightarrow> map_of (transportMap r) k = Some t) \<and>
      (\<forall>k t. map_of (transportMap r) k = Some t \<and> map_of (transportMap r') k \<noteq> Some t \<longrightarrow>
         closed (transports r' ! t) \<and>
         closeCalls (transports r ! t) < closeCalls (transports r' ! t)) \<and>
      (\<forall>t < length (transports r).
         closeCalls (transports r ! t) \<le> closeCalls (transports r' ! t) \<and>
         (closed (transports r ! t) \<longrightarrow> closed (transports r' ! t))))"

text \<open>One step of \<open>fireListeners\<close>.\<close>

definition fireOne :: "config \<Rightarrow> (nat \<Rightarrow> close_run) \<Rightarrow> nat \<Rightarrow> nat \<times> nat \<times> nat \<Rightarrow> stateless \<Rightarrow> stateless" where
  "fireOne cfg cl req l st =
     (if fst l = req
      then st\<lparr>heap := fst (transportClose cfg (cl (fst (snd l))) (fst (snd l)) (heap st)),
              serverCloseCalls := (serverCloseCalls st)[snd (snd l) :=
                                     Suc (serverCloseCalls st ! snd (snd l))]\<rparr>
      else st)"

section \<open>Properties\<close>

subsection \<open>The raw response under a Transport\<close>

lemma runActs_head: "head raw \<noteq> None \<Longrightarrow> head (fst (runActs sid as raw)) = head raw"
proof (induction sid as raw rule: runActs.induct)
  case (2 sid s as raw)
  then show ?case by (simp add: writeHead_def)
next
  case (3 sid as raw)
  then show ?case by (auto simp: rawWrite_def implicitHead_def)
next
  case (4 sid as raw)
  then show ?case by (auto simp: rawEnd_def implicitHead_def)
qed simp

lemma runActs_chunks:
  "set (chunks (fst (runActs sid as raw))) \<subseteq> insert TransportData (set (chunks raw))"
proof (induction sid as raw rule: runActs.induct)
  case (2 sid s as raw)
  then show ?case by (auto simp: writeHead_def)
next
  case (3 sid as raw)
  then show ?case by (auto simp: rawWrite_def implicitHead_def)
next
  case (4 sid as raw)
  then show ?case by (auto simp: rawEnd_def implicitHead_def)
qed auto

lemma handleRequest_head:
  "head raw \<noteq> None \<Longrightarrow> head (fst (snd (handleRequest cfg gen tr isInit t r raw))) = head raw"
  by (simp add: handleRequest_def Let_def split_beta runActs_head)

lemma handleRequest_chunks:
  "set (chunks (fst (snd (handleRequest cfg gen tr isInit t r raw))))
     \<subseteq> insert TransportData (set (chunks raw))"
  by (simp add: handleRequest_def Let_def split_beta runActs_chunks)

lemma replySend_chunks: "set (chunks (replySend s p raw)) \<subseteq> insert p (set (chunks raw))"
  by (auto simp: replySend_def)

subsection \<open>The generator of \<open>registerMcpRoutes\<close>\<close>

lemma routesGenerator_defined: "routesGenerator randomUUID opts \<noteq> None"
  by (simp add: routesGenerator_def withDefault_def split: js_prop.splits)

text \<open>
  Claim C9. Whatever the options of \<open>registerMcpRoutes\<close> are, also when they set
  \<open>sessionIdGenerator\<close> to \<open>undefined\<close>, the generator left by the destructuring
  defaults is defined, and no GET or DELETE of this adapter is answered by the
  "Method not allowed in stateless mode" envelope of \<open>handleSessionRequest\<close>.
\<close>

theorem routes_never_stateless:
  "routesGenerator randomUUID opts \<noteq> None \<and>
   methodNotAllowed \<notin> set (chunks (resp (routesSession randomUUID opts cfg e sid r)))"
proof -
  let ?c = "routesConfig randomUUID opts cfg"
  have g: "sessionIdGenerator ?c \<noteq> None"
    by (simp add: routesConfig_def routesGenerator_defined)
  have "set (chunks (resp (handleSessionRequest ?c e sid r)))
          \<subseteq> {invalidSession, FastifyError, TransportData}"
    using g handleRequest_chunks [of ?c "sessionIdGenerator ?c" "run e" False _ r freshRaw]
      replySend_chunks [of 500 FastifyError]
    apply (simp add: handleSessionRequest_def Let_def split_beta split: jsval.splits)
    apply (auto simp: fastifyReject_def replySend_def freshRaw_def)
    done
  then show ?thesis
    using routesGenerator_defined [of randomUUID opts]
    by (auto simp: routesSession_def methodNotAllowed_def invalidSession_def)
qed

theorem routes_never_stateless_witness:
  "routesGenerator (\<lambda>n. ''u'') undefinedGenerator \<noteq> None \<and>
   methodNotAllowed \<notin> set (chunks (resp (routesSession (\<lambda>n. ''u'') undefinedGenerator
                                          statelessConfig sseEnv None emptyRegistry)))"
  using routes_never_stateless [of "\<lambda>n. ''u''" undefinedGenerator statelessConfig sseEnv None
      emptyRegistry]
  by simp

subsection \<open>What the handlers answer when no session is found\<close>


lemma getProp_own: "map_of (transportMap r) k = Some t \<Longrightarrow> getProp cfg r k = JTransport t"
  by (simp add: getProp_def)

lemma getProp_unknown:
  "map_of (transportMap r) k = None \<Longrightarrow> protoT r = None \<Longrightarrow> k \<notin> set objectPrototypeNames \<Longrightarrow>
   k \<noteq> ''__proto__'' \<Longrightarrow> getProp cfg r k = JUndefined"
  by (simp add: getProp_def)

lemma replySend_fresh:
  "observedStatus (replySend s p freshRaw) = Some s \<and> chunks (replySend s p freshRaw) = [p]"
  by (simp add: replySend_def freshRaw_def observedStatus_def)

lemma oneSession_eq:
  "oneSession = \<lparr>transportMap = [(''a'', 0)], protoT = None,
       transports = [\<lparr>sessionId = Some ''a'', initialized = True, closed = False,
             closeCalls = 0, onsessioninitialized = ServerHook, onclose = ServerHook\<rparr>],
       genCount = 1\<rparr>"
  by (simp add: oneSession_def postHandler_def truthyStr_def emptyRegistry_def sseEnv_def
      sseRun_def uuidConfig_def handleFastifyRequest_def handleRequest_def Let_def
      newTransport_def initializeSession_def updTransport_def runOnsessioninitialized_def
      setProp_def writeHead_def freshRaw_def rawWrite_def rawEnd_def implicitHead_def)

text \<open>
  Claim C3, at the inputs where the code departs from it. With no generator configured,
  a GET and a DELETE without a session header are answered with status 400 by
  \<open>registerMcpServer\<close>, which has no stateless branch; \<open>registerMcpRoutes\<close> given
  \<open>sessionIdGenerator: undefined\<close> answers 400 as well, because the default generator has
  replaced the \<open>undefined\<close>.
\<close>

theorem stateless_get_delete_400:
  "observedStatus (resp (getHandler statelessConfig e None r)) = Some 400 \<and>
   observedStatus (resp (deleteHandler statelessConfig e None r)) = Some 400 \<and>
   observedStatus (resp (routesSession randomUUID undefinedGenerator statelessConfig e None r))
     = Some 400"
  by (simp add: getHandler_def deleteHandler_def routesSession_def handleSessionRequest_def
      routesConfig_def routesGenerator_def withDefault_def undefinedGenerator_def
      truthyStr_def replySend_def freshRaw_def observedStatus_def)

theorem stateless_get_delete_400_witness:
  "observedStatus (resp (getHandler statelessConfig sseEnv None emptyRegistry)) = Some 400 \<and>
   observedStatus (resp (deleteHandler statelessConfig sseEnv None emptyRegistry)) = Some 400 \<and>
   observedStatus (resp (routesSession (\<lambda>n. ''u'') undefinedGenerator statelessConfig sseEnv None
                           emptyRegistry)) = Some 400"
  using stateless_get_delete_400 [of sseEnv emptyRegistry "\<lambda>n. ''u''"] by simp

text \<open>
  A header that is no key of the table but names a member of
  \<open>Object.prototype\<close> (\<open>constructor\<close>, \<open>toString\<close>, \<dots>). The read \<open>transportMap[k]\<close>
  finds the inherited member, which is truthy and has no \<open>handleRequest\<close>; the
  \<open>TypeError\<close> ends in the \<open>catch\<close> of the POST handler, and the reply is the 500
  envelope.
\<close>

lemma post_inherited_key_is_500:
  assumes "map_of (transportMap r) k = None" and "protoT r = None"
    and "k \<in> set objectPrototypeNames"
  shows "observedStatus (resp (postHandler cfg e (Some k) isInit r)) = Some 500 \<and>
         chunks (resp (postHandler cfg e (Some k) isInit r))
           = [Envelope (- 32603) ''Internal server error''] \<and>
         reg (postHandler cfg e (Some k) isInit r) = r"
proof -
  have ne: "k \<noteq> []" "k \<noteq> ''__proto__''"
    using assms(3) by (auto simp: objectPrototypeNames_def)
  then have g: "getProp cfg r k = JOther"
    using assms by (simp add: getProp_def)
  have "postHandler cfg e (Some k) isInit r
          = \<lparr>reg = r, resp = catchPost freshRaw, routed = None\<rparr>"
    using g ne by (simp add: postHandler_def truthyStr_def truthy_def)
  moreover have "catchPost freshRaw = replySend 500 internalError freshRaw"
    by (simp add: catchPost_def freshRaw_def)
  ultimately show ?thesis
    by (simp add: replySend_fresh internalError_def)
qed

subsection \<open>The invariant of the table is kept by every event\<close>

lemma tableOk_empty: "tableOk emptyRegistry"
  by (simp add: tableOk_def emptyRegistry_def)

lemma updTransport_fields [simp]:
  "transportMap (updTransport t f r) = transportMap r"
  "protoT (updTransport t f r) = protoT r"
  "genCount (updTransport t f r) = genCount r"
  "length (transports (updTransport t f r)) = length (transports r)"
  by (simp_all add: updTransport_def)

lemma updTransport_nth:
  "t' < length (transports r) \<Longrightarrow>
   transports (updTransport t f r) ! t' = (if t' = t then f (transports r ! t) else transports r ! t')"
  by (simp add: updTransport_def nth_list_update)

lemma deleteProp_fields [simp]:
  "transports (deleteProp k r) = transports r"
  "protoT (deleteProp k r) = protoT r"
  "genCount (deleteProp k r) = genCount r"
  "map_of (transportMap (deleteProp k r)) = (map_of (transportMap r))(k := None)"
  by (simp_all add: deleteProp_def delete_conv')

lemma getProp_updTransport [simp]: "getProp cfg (updTransport t f r) k = getProp cfg r k"
  by (simp add: getProp_def split: option.splits)

lemma tableOk_upd:
  assumes "tableOk r"
    and "sessionId (f (transports r ! t)) = sessionId (transports r ! t)"
    and "closed (f (transports r ! t)) = closed (transports r ! t)"
    and "onclose (f (transports r ! t)) = onclose (transports r ! t)"
    and "onsessioninitialized (f (transports r ! t)) = onsessioninitialized (transports r ! t)"
    and "initialized (transports r ! t) \<longrightarrow> initialized (f (transports r ! t))"
  shows "tableOk (updTransport t f r)"
  using assms unfolding tableOk_def
  by (simp add: updTransport_nth)

lemma tableOk_delete: "tableOk r \<Longrightarrow> tableOk (deleteProp k r)"
  unfolding tableOk_def
  by (simp add: deleteProp_def distinct_delete delete_conv')

lemma tableOk_close_mark:
  assumes "tableOk r" and "t < length (transports r)"
    and "\<forall>k. map_of (transportMap r) k \<noteq> Some t"
  shows "tableOk (updTransport t (\<lambda>tr. tr\<lparr>closed := True\<rparr>) r)"
  using assms unfolding tableOk_def
  by (auto simp: updTransport_nth)

lemma deleteProp_updTransport:
  "deleteProp k (updTransport t f r) = updTransport t f (deleteProp k r)"
  by (simp add: deleteProp_def updTransport_def)

lemma tableOk_entry:
  "tableOk r \<Longrightarrow> map_of (transportMap r) k = Some t \<Longrightarrow>
   k \<noteq> [] \<and> t < length (transports r) \<and> sessionId (transports r ! t) = Some k \<and>
   \<not> closed (transports r ! t)"
  by (simp add: tableOk_def)

lemma tableOk_getProp:
  "tableOk r \<Longrightarrow> getProp cfg r k = JTransport t \<Longrightarrow>
   t < length (transports r) \<and> initialized (transports r ! t)"
  by (auto simp: tableOk_def getProp_def split: option.splits if_splits)

lemma tableOk_runOnclose:
  assumes ok: "tableOk r" and t: "t < length (transports r)"
  shows "tableOk (runOnclose cfg t (updTransport t (\<lambda>tr. tr\<lparr>closed := True\<rparr>) r))"
proof -
  let ?u = "updTransport t (\<lambda>tr. tr\<lparr>closed := True\<rparr>)"
  have hook: "onclose (transports r ! t) = ServerHook"
    using ok t by (simp add: tableOk_def)
  show ?thesis
  proof (cases "\<exists>k. map_of (transportMap r) k = Some t")
    case True
    then obtain k where k: "map_of (transportMap r) k = Some t" by blast
    from tableOk_entry [OF ok k] have sid: "sessionId (transports r ! t) = Some k" "k \<noteq> []"
      by simp_all
    have none: "\<forall>k'. map_of (transportMap (deleteProp k r)) k' \<noteq> Some t"
    proof (intro allI notI)
      fix k' assume "map_of (transportMap (deleteProp k r)) k' = Some t"
      then have "k' \<noteq> k" "map_of (transportMap r) k' = Some t"
        by (auto split: if_splits)
      with tableOk_entry [OF ok] sid show False by fastforce
    qed
    have "runOnclose cfg t (?u r) = ?u (deleteProp k r)"
      using hook sid t k
      by (simp add: runOnclose_def Let_def updTransport_nth truthyStr_def truthy_def
          getProp_own deleteProp_updTransport)
    then show ?thesis
      using tableOk_close_mark [OF tableOk_delete [OF ok, of k] _ none] t by simp
  next
    case False
    then have none: "\<forall>k. map_of (transportMap r) k \<noteq> Some t" by blast
    have m: "tableOk (?u r)"
      by (rule tableOk_close_mark [OF ok t none])
    have "runOnclose cfg t (?u r) = ?u r \<or> (\<exists>k. runOnclose cfg t (?u r) = deleteProp k (?u r))"
      using hook t by (auto simp: runOnclose_def Let_def updTransport_nth)
    then show ?thesis
      using m tableOk_delete by auto
  qed
qed

lemma transportClose_length [simp]:
  "length (transports (fst (transportClose cfg cr t r))) = length (transports r)"
  by (auto simp: transportClose_def Let_def runOnclose_def split: hook.splits)

lemma tableOk_close:
  assumes ok: "tableOk r" and t: "t < length (transports r)"
  shows "tableOk (fst (transportClose cfg cr t r))"
proof -
  let ?r1 = "updTransport t (\<lambda>tr. tr\<lparr>closeCalls := Suc (closeCalls tr)\<rparr>) r"
  have r1: "tableOk ?r1" by (rule tableOk_upd [OF ok]) simp_all
  have t1: "t < length (transports ?r1)" using t by simp
  show ?thesis
    using r1 tableOk_runOnclose [OF r1 t1, of cfg]
    by (simp add: transportClose_def Let_def)
qed


lemma tableOk_init:
  assumes ok: "tableOk r" and t: "t < length (transports r)"
    and fresh: "\<not> initialized (transports r ! t)" "\<not> closed (transports r ! t)"
  shows "tableOk (initializeSession g t r)"
proof (cases g)
  case None
  have "tableOk (updTransport t (\<lambda>tr. tr\<lparr>initialized := True\<rparr>) r)"
    by (rule tableOk_upd [OF ok]) simp_all
  with None show ?thesis by (simp add: initializeSession_def)
next
  case (Some gen)
  define sid where "sid = gen (genCount r)"
  define r1 where "r1 = updTransport t (\<lambda>tr. tr\<lparr>sessionId := Some sid, initialized := True\<rparr>)
                      (r\<lparr>genCount := Suc (genCount r)\<rparr>)"
  have nosid: "sessionId (transports r ! t) = None"
    using ok t fresh by (auto simp: tableOk_def)
  have other: "\<And>k t'. map_of (transportMap r) k = Some t' \<Longrightarrow> t' \<noteq> t"
    using tableOk_entry [OF ok] nosid by fastforce
  have ok1: "tableOk r1"
    using ok t fresh other unfolding tableOk_def r1_def
    by (auto simp: updTransport_nth)
  have hook: "onsessioninitialized (transports r1 ! t) = ServerHook"
    using ok t by (simp add: tableOk_def r1_def updTransport_nth)
  have ok2: "tableOk (setProp sid t r1)" if ne: "sid \<noteq> []"
    using ok t fresh other ne unfolding tableOk_def r1_def setProp_def
    by (auto simp: updTransport_nth update_conv' distinct_update
        simp del: map_of_eq_Some_iff)
  have "initializeSession g t r = runOnsessioninitialized t sid r1"
    using Some by (simp add: initializeSession_def Let_def sid_def r1_def)
  then show ?thesis
    using ok1 ok2 hook by (simp add: runOnsessioninitialized_def)
qed

lemma setProp_length [simp]: "length (transports (setProp k t r)) = length (transports r)"
  by (simp add: setProp_def)

lemma initializeSession_length [simp]:
  "length (transports (initializeSession gen t r)) = length (transports r)"
  by (simp add: initializeSession_def Let_def runOnsessioninitialized_def
      split: option.splits hook.splits)

lemma initializeSession_initialized:
  "t < length (transports r) \<Longrightarrow> initialized (transports (initializeSession gen t r) ! t)"
  by (simp add: initializeSession_def Let_def runOnsessioninitialized_def updTransport_nth
      setProp_def split: option.splits hook.splits)

lemma handleRequest_length [simp]:
  "length (transports (fst (handleRequest cfg gen tr isInit t r raw))) = length (transports r)"
  by (simp add: handleRequest_def Let_def split_beta)

lemma tableOk_handleRequest:
  assumes ok: "tableOk r" and t: "t < length (transports r)"
    and st: "initialized (transports r ! t) \<or> \<not> closed (transports r ! t)"
  shows "tableOk (fst (handleRequest cfg g tr isInit t r raw))"
proof -
  define r1 where "r1 = (if initializes tr \<and> isInit \<and> \<not> initialized (transports r ! t)
                then initializeSession g t r else r)"
  have ok1: "tableOk r1"
    using ok t st tableOk_init [of r t g] by (auto simp: r1_def)
  have t1: "t < length (transports r1)"
    using t by (simp add: r1_def)
  show ?thesis
    using ok1 tableOk_close [OF ok1 t1]
    by (simp add: handleRequest_def Let_def split_beta r1_def [symmetric])
qed

lemma tableOk_new:
  assumes ok: "tableOk r"
  shows "tableOk (r\<lparr>transports := transports r @ [newTransport ServerHook ServerHook]\<rparr>)"
  using ok unfolding tableOk_def
  by (auto simp: nth_append newTransport_def less_Suc_eq)

lemma tableOk_post:
  assumes ok: "tableOk r"
  shows "tableOk (reg (postHandler cfg e sid isInit r))"
proof (cases "truthyStr sid \<and> truthy (getProp cfg r (the sid))")
  case True
  show ?thesis
  proof (cases "getProp cfg r (the sid)")
    case (JTransport t)
    from tableOk_getProp [OF ok JTransport]
    have t: "t < length (transports r)" "initialized (transports r ! t)" by auto
    with tableOk_handleRequest [OF ok t(1)] True JTransport show ?thesis
      by (simp add: postHandler_def handleFastifyRequest_def split_beta)
  qed (use True ok in \<open>simp_all add: postHandler_def\<close>)
next
  case False
  define r0 where "r0 = r\<lparr>transports := transports r @ [newTransport ServerHook ServerHook]\<rparr>"
  have ok0: "tableOk r0" unfolding r0_def by (rule tableOk_new [OF ok])
  have "tableOk (fst (handleRequest cfg (sessionIdGenerator cfg) (run e) isInit
                  (length (transports r)) r0 freshRaw))"
    by (rule tableOk_handleRequest [OF ok0]) (simp_all add: r0_def newTransport_def)
  with False ok ok0 show ?thesis
    by (auto simp: postHandler_def handleFastifyRequest_def split_beta Let_def
        r0_def [symmetric])
qed

lemma tableOk_getHandler:
  assumes ok: "tableOk r"
  shows "tableOk (reg (getHandler cfg e sid r))"
proof (cases "getProp cfg r (the sid)")
  case (JTransport t)
  from tableOk_getProp [OF ok JTransport]
  have t: "t < length (transports r)" "initialized (transports r ! t)" by auto
  with tableOk_handleRequest [OF ok t(1)] JTransport ok show ?thesis
    by (simp add: getHandler_def split_beta Let_def writeHead_def freshRaw_def)
qed (use ok in \<open>simp_all add: getHandler_def writeHead_def freshRaw_def\<close>)

lemma tableOk_deleteHandler:
  assumes ok: "tableOk r"
  shows "tableOk (reg (deleteHandler cfg e sid r))"
proof (cases "getProp cfg r (the sid)")
  case (JTransport t)
  from tableOk_getProp [OF ok JTransport]
  have t: "t < length (transports r)" by auto
  from tableOk_close [OF ok t, of cfg "closing e"] JTransport ok show ?thesis
    by (simp add: deleteHandler_def split_beta tableOk_delete)
qed (use ok in \<open>simp_all add: deleteHandler_def\<close>)

lemma tableOk_shutdownBody:
  assumes ok: "tableOk r"
  shows "tableOk (shutdownBody cfg cl k r)"
proof (cases "getProp cfg r k")
  case (JTransport t)
  from tableOk_getProp [OF ok JTransport]
  have t: "t < length (transports r)" by auto
  from tableOk_close [OF ok t, of cfg "cl t"] JTransport show ?thesis
    by (simp add: shutdownBody_def split_beta tableOk_delete)
qed (use ok in \<open>simp_all add: shutdownBody_def\<close>)

lemma tableOk_shutdownLoop: "tableOk r \<Longrightarrow> tableOk (shutdownLoop cfg cl ks r)"
  by (induction ks arbitrary: r) (simp_all add: tableOk_shutdownBody)

lemma tableOk_step: "tableOk r \<Longrightarrow> tableOk (reg (step cfg ev r))"
  by (cases ev)
     (simp_all add: tableOk_post tableOk_getHandler tableOk_deleteHandler tableOk_close
        tableOk_shutdownLoop onCloseHook_def silent_def)

lemma tableOk_exec: "tableOk r \<Longrightarrow> tableOk (exec cfg evs r)"
  by (induction evs arbitrary: r) (simp_all add: tableOk_step)

subsection \<open>A POST without a valid session\<close>




subsection \<open>The GET handler of \<open>registerMcpServer\<close>\<close>

lemma reachable_tableOk: "tableOk (exec cfg evs emptyRegistry)"
  by (rule tableOk_exec [OF tableOk_empty])

lemma endIfOpen_props:
  "writableEnded (endIfOpen raw)"
  "head raw \<noteq> None \<Longrightarrow> head (endIfOpen raw) = head raw"
  "chunks (endIfOpen raw) = chunks raw"
  by (auto simp: endIfOpen_def rawEnd_def implicitHead_def)

lemma exec_oneSession: "exec uuidConfig [Post None True sseEnv] emptyRegistry = oneSession"
  by (simp add: oneSession_def)

text \<open>
  Claim C10. In the GET handler of \<open>registerMcpServer\<close>, whenever the session header
  names an entry of the table, the head with status 200 (and the session header) is written
  before the Transport handles the request: the Transport is given a response whose head
  is fixed. Whatever the Transport then does, also when it throws, the client observes
  status 200; the handler only ends the response and adds no envelope and no text.
\<close>

theorem get_known_session_is_200:
  assumes "map_of (transportMap (exec cfg evs emptyRegistry)) s = Some t"
  shows "observedStatus (resp (getHandler cfg e (Some s) (exec cfg evs emptyRegistry))) = Some 200 \<and>
         sessionHeader (resp (getHandler cfg e (Some s) (exec cfg evs emptyRegistry))) = Some s \<and>
         routed (getHandler cfg e (Some s) (exec cfg evs emptyRegistry)) = Some t \<and>
         writableEnded (resp (getHandler cfg e (Some s) (exec cfg evs emptyRegistry))) \<and>
         set (chunks (resp (getHandler cfg e (Some s) (exec cfg evs emptyRegistry))))
           \<subseteq> {TransportData} \<and>
         resp (getHandler cfg e (Some s) (exec cfg evs emptyRegistry))
           = endIfOpen (fst (snd (handleRequest cfg (sessionIdGenerator cfg) (run e) False t
                 (exec cfg evs emptyRegistry)
                 (freshRaw\<lparr>head := Some (200, Some s), statusCode := 200\<rparr>))))"
proof -
  define r where "r = exec cfg evs emptyRegistry"
  define raw0 where "raw0 = freshRaw\<lparr>head := Some (200, Some s), statusCode := 200\<rparr>"
  define raw1 where
    "raw1 = fst (snd (handleRequest cfg (sessionIdGenerator cfg) (run e) False t r raw0))"
  have ok: "tableOk r" unfolding r_def by (rule reachable_tableOk)
  have m: "map_of (transportMap r) s = Some t" using assms by (simp add: r_def)
  from tableOk_entry [OF ok m]
  have s: "s \<noteq> []" and sid: "sessionId (transports r ! t) = Some s" by simp_all
  have out: "getHandler cfg e (Some s) r
             = \<lparr>reg = fst (handleRequest cfg (sessionIdGenerator cfg) (run e) False t r raw0),
                resp = endIfOpen raw1, routed = Some t\<rparr>"
    using s sid m
    by (simp add: getHandler_def getProp_own truthy_def truthyStr_def writeHead_def
        freshRaw_def split_beta Let_def raw0_def raw1_def)
  have h0: "head raw0 = Some (200, Some s)" "chunks raw0 = []"
    by (simp_all add: raw0_def freshRaw_def)
  have h1: "head raw1 = Some (200, Some s)"
    using handleRequest_head [of raw0 cfg "sessionIdGenerator cfg" "run e" False t r] h0
    by (simp add: raw1_def)
  have c1: "set (chunks raw1) \<subseteq> {TransportData}"
    using handleRequest_chunks [of cfg "sessionIdGenerator cfg" "run e" False t r raw0] h0
    by (simp add: raw1_def)
  show ?thesis
    unfolding r_def [symmetric] raw0_def [symmetric] out
    using h1 c1
    by (simp add: observedStatus_def sessionHeader_def endIfOpen_props raw1_def)
qed

theorem get_known_session_is_200_witness:
  "map_of (transportMap (exec uuidConfig [Post None True sseEnv] emptyRegistry)) ''a'' = Some 0 \<and>
   observedStatus (resp (getHandler uuidConfig faultyEnv (Some ''a'')
       (exec uuidConfig [Post None True sseEnv] emptyRegistry))) = Some 200 \<and>
   set (chunks (resp (getHandler uuidConfig faultyEnv (Some ''a'')
       (exec uuidConfig [Post None True sseEnv] emptyRegistry)))) \<subseteq> {TransportData}"
proof -
  have m: "map_of (transportMap (exec uuidConfig [Post None True sseEnv] emptyRegistry)) ''a''
             = Some 0"
    by (simp only: exec_oneSession) (simp add: oneSession_eq)
  from get_known_session_is_200 [OF m, of faultyEnv] m show ?thesis
    by blast
qed

subsection \<open>The \<open>onClose\<close> hook\<close>

lemma delete_absent: "map_of al k = None \<Longrightarrow> AList.delete k al = al"
  by (induction al) (auto split: if_splits)

lemma delete_filter: "AList.delete k al = filter (\<lambda>p. fst p \<noteq> k) al"
  by (induction al) auto

lemma runOnclose_transports [simp]: "transports (runOnclose cfg t r) = transports r"
  by (simp add: runOnclose_def Let_def split: hook.splits)

lemma transportClose_closeCalls:
  assumes "t' < length (transports r)"
  shows "closeCalls (transports (fst (transportClose cfg cr t r)) ! t')
           = (if t' = t then Suc (closeCalls (transports r ! t)) else closeCalls (transports r ! t'))"
  using assms by (simp add: transportClose_def Let_def updTransport_nth)

lemma close_entry_table:
  assumes ok: "tableOk r" and m: "map_of (transportMap r) k = Some t"
  shows "transportMap (fst (transportClose cfg cr t r))
           = (if closeFails cr \<and> \<not> oncloseBeforeFailure cr then transportMap r
              else AList.delete k (transportMap r))"
proof -
  from tableOk_entry [OF ok m]
  have f: "k \<noteq> []" "t < length (transports r)" "sessionId (transports r ! t) = Some k"
    "\<not> closed (transports r ! t)" by simp_all
  have hook: "onclose (transports r ! t) = ServerHook"
    using ok f by (simp add: tableOk_def)
  show ?thesis
    using f hook m
    by (simp add: transportClose_def Let_def runOnclose_def updTransport_nth truthyStr_def
        truthy_def getProp_own deleteProp_def)
qed

lemma close_entry_threw:
  assumes ok: "tableOk r" and m: "map_of (transportMap r) k = Some t"
  shows "snd (transportClose cfg cr t r) = closeFails cr"
  using tableOk_entry [OF ok m] by (simp add: transportClose_def Let_def)

lemma close_proto_table:
  assumes ok: "tableOk r" and p: "protoT r = Some t"
  shows "transportMap (fst (transportClose cfg cr t r)) = transportMap r"
proof -
  have f: "t < length (transports r)" "sessionId (transports r ! t) = Some ''__proto__''"
    using ok p by (simp_all add: tableOk_def)
  have hook: "onclose (transports r ! t) = ServerHook"
    using ok f by (simp add: tableOk_def)
  have "map_of (transportMap r) ''__proto__'' = None"
    using ok by (cases "map_of (transportMap r) ''__proto__''")
      (auto simp: tableOk_def simp del: map_of_eq_Some_iff)
  then have "AList.delete ''__proto__'' (transportMap r) = transportMap r"
    by (rule delete_absent)
  then show ?thesis
    using f hook
    by (simp add: transportClose_def Let_def runOnclose_def updTransport_nth deleteProp_def)
qed

lemma getProp_cases:
  assumes ok: "tableOk r" and g: "getProp cfg r k = JTransport t"
  shows "map_of (transportMap r) k = Some t \<or>
         (map_of (transportMap r) k = None \<and> protoT r = Some t)"
  using g by (auto simp: getProp_def split: option.splits if_splits)

lemma shutdownBody_table:
  assumes ok: "tableOk r"
  shows "transportMap (shutdownBody cfg cl k r)
           = (case map_of (transportMap r) k of
                Some t \<Rightarrow> (if survives cl (k, t) then transportMap r
                           else AList.delete k (transportMap r))
              | None \<Rightarrow> transportMap r)"
proof (cases "getProp cfg r k")
  case (JTransport t)
  from getProp_cases [OF ok JTransport] show ?thesis
  proof
    assume m: "map_of (transportMap r) k = Some t"
    show ?thesis
      using JTransport m close_entry_table [OF ok m, of cfg "cl t"]
        close_entry_threw [OF ok m, of cfg "cl t"]
      by (simp add: shutdownBody_def split_beta survives_def deleteProp_def delete_idem)
  next
    assume m: "map_of (transportMap r) k = None \<and> protoT r = Some t"
    then have "AList.delete k (transportMap r) = transportMap r"
      by (simp add: delete_absent)
    then show ?thesis
      using JTransport m close_proto_table [OF ok, of t cfg "cl t"]
      by (simp add: shutdownBody_def split_beta deleteProp_def)
  qed
next
  case JUndefined
  then have "map_of (transportMap r) k = None"
    by (cases "map_of (transportMap r) k") (simp_all add: getProp_def)
  with JUndefined show ?thesis by (simp add: shutdownBody_def)
next
  case JOther
  then have "map_of (transportMap r) k = None"
    by (cases "map_of (transportMap r) k") (simp_all add: getProp_def)
  with JOther show ?thesis by (simp add: shutdownBody_def)
qed

lemma shutdownBody_length [simp]:
  "length (transports (shutdownBody cfg cl k r)) = length (transports r)"
  by (simp add: shutdownBody_def split_beta split: jsval.splits)

lemma shutdownBody_mono:
  assumes "t' < length (transports r)"
  shows "closeCalls (transports r ! t') \<le> closeCalls (transports (shutdownBody cfg cl k r) ! t')"
  using assms
  by (simp add: shutdownBody_def split_beta transportClose_closeCalls split: jsval.splits)

lemma shutdownBody_entry:
  assumes ok: "tableOk r" and m: "map_of (transportMap r) k = Some t"
  shows "closeCalls (transports r ! t) < closeCalls (transports (shutdownBody cfg cl k r) ! t)"
  using tableOk_entry [OF ok m] m
  by (simp add: shutdownBody_def getProp_own split_beta transportClose_closeCalls)

lemma step_table:
  assumes ok: "tableOk r"
  shows "transportMap (if present cfg r k then shutdownBody cfg cl k r else r)
           = filter (\<lambda>p. fst p \<noteq> k \<or> survives cl p) (transportMap r)"
proof (cases "map_of (transportMap r) k")
  case None
  then have "\<forall>p \<in> set (transportMap r). fst p \<noteq> k"
    by (auto simp: map_of_eq_None_iff)
  then have "filter (\<lambda>p. fst p \<noteq> k \<or> survives cl p) (transportMap r) = transportMap r"
    by (simp add: filter_id_conv)
  with None shutdownBody_table [OF ok, of cfg cl k] show ?thesis by simp
next
  case (Some t)
  have d: "distinct (map fst (transportMap r))" using ok by (simp add: tableOk_def)
  have only: "\<forall>p \<in> set (transportMap r). fst p = k \<longrightarrow> p = (k, t)"
    using d Some by (metis map_of_eq_Some_iff option.inject prod.collapse)
  have pres: "present cfg r k" using Some by (simp add: present_def)
  show ?thesis
  proof (cases "survives cl (k, t)")
    case True
    then have "\<forall>p \<in> set (transportMap r). fst p \<noteq> k \<or> survives cl p"
      using only by auto
    then have "filter (\<lambda>p. fst p \<noteq> k \<or> survives cl p) (transportMap r) = transportMap r"
      by (simp add: filter_id_conv)
    with True Some pres shutdownBody_table [OF ok, of cfg cl k] show ?thesis by simp
  next
    case False
    then have "filter (\<lambda>p. fst p \<noteq> k \<or> survives cl p) (transportMap r)
                 = filter (\<lambda>p. fst p \<noteq> k) (transportMap r)"
      using only by (intro filter_cong) force+
    with False Some pres shutdownBody_table [OF ok, of cfg cl k] show ?thesis
      by (simp add: delete_filter)
  qed
qed

lemma step_tableOk:
  "tableOk r \<Longrightarrow> tableOk (if present cfg r k then shutdownBody cfg cl k r else r)"
  by (simp add: tableOk_shutdownBody)

lemma shutdownLoop_table:
  assumes "tableOk r"
  shows "transportMap (shutdownLoop cfg cl ks r)
           = filter (\<lambda>p. fst p \<notin> set ks \<or> survives cl p) (transportMap r)"
  using assms
proof (induction ks arbitrary: r)
  case Nil
  then show ?case by simp
next
  case (Cons k ks)
  let ?r1 = "if present cfg r k then shutdownBody cfg cl k r else r"
  have "transportMap (shutdownLoop cfg cl (k # ks) r)
          = filter (\<lambda>p. fst p \<notin> set ks \<or> survives cl p) (transportMap ?r1)"
    using Cons.IH [OF step_tableOk [OF Cons.prems]] by simp
  also have "\<dots> = filter (\<lambda>p. fst p \<notin> set ks \<or> survives cl p)
                     (filter (\<lambda>p. fst p \<noteq> k \<or> survives cl p) (transportMap r))"
    by (simp only: step_table [OF Cons.prems])
  also have "\<dots> = filter (\<lambda>p. fst p \<notin> set (k # ks) \<or> survives cl p) (transportMap r)"
    by (auto intro: filter_cong)
  finally show ?case .
qed

lemma shutdownLoop_length [simp]:
  "length (transports (shutdownLoop cfg cl ks r)) = length (transports r)"
  by (induction ks arbitrary: r) simp_all

lemma shutdownLoop_mono:
  "t' < length (transports r) \<Longrightarrow>
   closeCalls (transports r ! t') \<le> closeCalls (transports (shutdownLoop cfg cl ks r) ! t')"
proof (induction ks arbitrary: r)
  case Nil
  then show ?case by simp
next
  case (Cons k ks)
  let ?r1 = "if present cfg r k then shutdownBody cfg cl k r else r"
  have "closeCalls (transports r ! t') \<le> closeCalls (transports ?r1 ! t')"
    using Cons.prems by (simp add: shutdownBody_mono)
  moreover have "closeCalls (transports ?r1 ! t')
                   \<le> closeCalls (transports (shutdownLoop cfg cl ks ?r1) ! t')"
    using Cons.prems by (intro Cons.IH) simp
  ultimately show ?case by simp
qed

lemma shutdownLoop_entry:
  assumes "tableOk r" and "map_of (transportMap r) k = Some t" and "k \<in> set ks"
  shows "closeCalls (transports r ! t) < closeCalls (transports (shutdownLoop cfg cl ks r) ! t)"
  using assms
proof (induction ks arbitrary: r)
  case Nil
  then show ?case by simp
next
  case (Cons k0 ks)
  let ?r1 = "if present cfg r k0 then shutdownBody cfg cl k0 r else r"
  have ok1: "tableOk ?r1" by (rule step_tableOk [OF Cons.prems(1)])
  have t: "t < length (transports r)"
    using tableOk_entry [OF Cons.prems(1,2)] by simp
  then have t1: "t < length (transports ?r1)" by simp
  show ?case
  proof (cases "k = k0")
    case True
    have "present cfg r k0" using Cons.prems(2) True by (simp add: present_def)
    then have "closeCalls (transports r ! t) < closeCalls (transports ?r1 ! t)"
      using shutdownBody_entry [OF Cons.prems(1), of k0 t cfg cl] Cons.prems(2) True by simp
    also have "\<dots> \<le> closeCalls (transports (shutdownLoop cfg cl ks ?r1) ! t)"
      by (rule shutdownLoop_mono [OF t1])
    finally show ?thesis by simp
  next
    case False
    then have "(k, t) \<in> set (filter (\<lambda>p. fst p \<noteq> k0 \<or> survives cl p) (transportMap r))"
      using Cons.prems(2) by (auto dest: map_of_SomeD)
    then have "(k, t) \<in> set (transportMap ?r1)"
      by (simp only: step_table [OF Cons.prems(1)])
    moreover have "distinct (map fst (transportMap ?r1))"
      using ok1 by (simp add: tableOk_def)
    ultimately have m1: "map_of (transportMap ?r1) k = Some t" by simp
    have "closeCalls (transports r ! t) \<le> closeCalls (transports ?r1 ! t)"
      using t by (simp add: shutdownBody_mono)
    also have "\<dots> < closeCalls (transports (shutdownLoop cfg cl ks ?r1) ! t)"
      using Cons.IH [OF ok1 m1] Cons.prems(3) False by simp
    finally show ?thesis by simp
  qed
qed

lemma forInKeys_own: "p \<in> set (transportMap r) \<Longrightarrow> fst p \<in> set (forInKeys cfg r)"
  by (auto simp: forInKeys_def Let_def)

text \<open>
  Claim C4, as amended. The shutdown of the registry visits every entry of the table and
  calls \<open>close()\<close> on its Transport; a close that fails does not keep the remaining
  Transports from being closed. Afterwards the table holds exactly the entries whose close
  failed before the on-close notification (the \<open>delete\<close> of the loop is skipped for them);
  it is empty when no close fails.
\<close>

theorem shutdown_closes_every_entry:
  "transportMap (onCloseHook cfg cl (exec cfg evs emptyRegistry))
     = filter (survives cl) (transportMap (exec cfg evs emptyRegistry)) \<and>
   (\<forall>(k, t) \<in> set (transportMap (exec cfg evs emptyRegistry)).
      closeCalls (transports (exec cfg evs emptyRegistry) ! t)
        < closeCalls (transports (onCloseHook cfg cl (exec cfg evs emptyRegistry)) ! t)) \<and>
   ((\<forall>t. \<not> closeFails (cl t)) \<longrightarrow>
      transportMap (onCloseHook cfg cl (exec cfg evs emptyRegistry)) = [])"
proof -
  define r where "r = exec cfg evs emptyRegistry"
  have ok: "tableOk r" unfolding r_def by (rule reachable_tableOk)
  have "filter (\<lambda>p. fst p \<notin> set (forInKeys cfg r) \<or> survives cl p) (transportMap r)
          = filter (survives cl) (transportMap r)"
    by (intro filter_cong) (auto simp: forInKeys_own)
  then have tab: "transportMap (onCloseHook cfg cl r) = filter (survives cl) (transportMap r)"
    by (simp add: onCloseHook_def shutdownLoop_table [OF ok])
  have calls: "closeCalls (transports r ! t) < closeCalls (transports (onCloseHook cfg cl r) ! t)"
    if "(k, t) \<in> set (transportMap r)" for k t
  proof -
    have "distinct (map fst (transportMap r))" using ok by (simp add: tableOk_def)
    with that have "map_of (transportMap r) k = Some t" by simp
    moreover have "k \<in> set (forInKeys cfg r)" using forInKeys_own [OF that] by simp
    ultimately show ?thesis
      unfolding onCloseHook_def by (rule shutdownLoop_entry [OF ok])
  qed
  have "transportMap (onCloseHook cfg cl r) = []" if "\<forall>t. \<not> closeFails (cl t)"
    using that by (simp add: tab survives_def)
  with tab calls show ?thesis
    unfolding r_def by auto
qed

theorem shutdown_closes_every_entry_witness:
  "transportMap (onCloseHook uuidConfig (\<lambda>t. closeOk)
      (exec uuidConfig [Post None True sseEnv] emptyRegistry)) = []"
proof -
  have "\<forall>t. \<not> closeFails ((\<lambda>t. closeOk) t)" by (simp add: closeOk_def)
  with shutdown_closes_every_entry [of uuidConfig "\<lambda>t. closeOk" "[Post None True sseEnv]"]
  show ?thesis by blast
qed

text \<open>
  Claim C4 as stated fails: with one session in the table whose Transport cannot be
  closed, the table still holds that session after the shutdown.
\<close>

theorem shutdown_failed_close_counterexample:
  "transportMap (onCloseHook uuidConfig (\<lambda>t. closeBroken)
      (exec uuidConfig [Post None True sseEnv] emptyRegistry)) = [(''a'', 0)]"
  by (simp only: exec_oneSession)
     (simp add: oneSession_eq onCloseHook_def forInKeys_def isArrayIndex_def isDigit_def
        present_def shutdownBody_def getProp_def transportClose_def closeBroken_def Let_def
        updTransport_def)

subsection \<open>The bodies of the failure replies\<close>


lemma catchPost_fresh: "catchPost freshRaw = replySend 500 internalError freshRaw"
  by (simp add: catchPost_def freshRaw_def)

lemma catchDelete_fresh: "catchDelete freshRaw = replySend 500 terminationError freshRaw"
  by (simp add: catchDelete_def freshRaw_def)




subsection \<open>The stateless handler and the \<open>close\<close> event of its request\<close>

lemma transportClose_closed_mono:
  "t < length (transports r) \<Longrightarrow> closed (transports r ! t) \<Longrightarrow>
   closed (transports (fst (transportClose cfg cr t' r)) ! t)"
  by (auto simp: transportClose_def Let_def updTransport_nth)

lemma transportClose_closes:
  "t < length (transports r) \<Longrightarrow> \<not> (closeFails cr \<and> \<not> oncloseBeforeFailure cr) \<Longrightarrow>
   closed (transports (fst (transportClose cfg cr t r)) ! t)"
  by (auto simp: transportClose_def Let_def updTransport_nth)

lemma fireListeners_Cons:
  "fireListeners cfg cl req (l # ls) st = fireListeners cfg cl req ls (fireOne cfg cl req l st)"
  by (cases l) (simp add: fireOne_def)

lemma fireOne_lengths [simp]:
  "length (transports (heap (fireOne cfg cl req l st))) = length (transports (heap st))"
  "length (serverCloseCalls (fireOne cfg cl req l st)) = length (serverCloseCalls st)"
  by (simp_all add: fireOne_def)




lemma fireListeners_lengths [simp]:
  "length (transports (heap (fireListeners cfg cl req ls st))) = length (transports (heap st))"
  "length (serverCloseCalls (fireListeners cfg cl req ls st)) = length (serverCloseCalls st)"
  by (induction ls arbitrary: st) (simp_all add: fireListeners_Cons del: fireListeners.simps(2))






lemma statelessHandler_phases:
  "statelessHandler cfg e req isInit st =
     (if getServerFails e then (st, catchPost freshRaw)
      else statelessFinish cfg e isInit (length (transports (heap st))) (statelessBegin req st))"
  by (simp add: statelessHandler_def statelessFinish_def statelessBegin_def Let_def)









subsection \<open>Identifiers under a generator of unique values\<close>

lemma sessionsOk_empty: "sessionsOk g emptyRegistry"
  by (simp add: sessionsOk_def sids_def emptyRegistry_def)

lemma sessionsOk_cong:
  "sids r' = sids r \<Longrightarrow> genCount r' = genCount r \<Longrightarrow> sessionsOk g r' = sessionsOk g r"
  by (simp add: sessionsOk_def)

lemma map_update_same: "(map f xs)[t := f (xs ! t)] = map f xs"
  by (cases "t < length xs") (simp_all add: list_update_same_conv list_update_beyond)

lemma sids_upd:
  "sessionId (f (transports r ! t)) = sessionId (transports r ! t) \<Longrightarrow>
   sids (updTransport t f r) = sids r"
  by (simp add: sids_def updTransport_def map_update map_update_same)

lemma sids_simps [simp]:
  "sids (deleteProp k r) = sids r"
  "sids (setProp k t r) = sids r"
  "sids (runOnclose cfg t r) = sids r"
  "sids (runOnsessioninitialized t k r) = sids r"
  by (simp_all add: sids_def deleteProp_def setProp_def runOnsessioninitialized_def
      split: hook.splits)

lemma genCount_simps [simp]:
  "genCount (setProp k t r) = genCount r"
  "genCount (runOnclose cfg t r) = genCount r"
  "genCount (runOnsessioninitialized t k r) = genCount r"
  by (simp_all add: setProp_def runOnclose_def Let_def runOnsessioninitialized_def
      split: hook.splits)

lemma transportClose_sids [simp]:
  "sids (fst (transportClose cfg cr t r)) = sids r"
  "genCount (fst (transportClose cfg cr t r)) = genCount r"
  by (simp_all add: transportClose_def Let_def sids_upd)

lemma initializeSession_sids:
  "sids (initializeSession (Some g) t r) = (sids r)[t := Some (g (genCount r))]"
  "genCount (initializeSession (Some g) t r) = Suc (genCount r)"
proof -
  let ?u = "updTransport t (\<lambda>tr. tr\<lparr>sessionId := Some (g (genCount r)), initialized := True\<rparr>)
              (r\<lparr>genCount := Suc (genCount r)\<rparr>)"
  have e: "initializeSession (Some g) t r = runOnsessioninitialized t (g (genCount r)) ?u"
    by (simp add: initializeSession_def Let_def)
  show "sids (initializeSession (Some g) t r) = (sids r)[t := Some (g (genCount r))]"
    unfolding e sids_simps by (simp add: sids_def updTransport_def map_update)
  show "genCount (initializeSession (Some g) t r) = Suc (genCount r)"
    unfolding e genCount_simps by simp
qed

lemma sessionsOk_init:
  assumes ok: "sessionsOk g r" and inj: "inj g" and t: "t < length (transports r)"
    and fresh: "sessionId (transports r ! t) = None"
  shows "sessionsOk g (initializeSession (Some g) t r)"
proof -
  have new: "sids r ! t' \<noteq> Some (g (genCount r))" if "t' < length (sids r)" for t'
  proof
    assume "sids r ! t' = Some (g (genCount r))"
    with ok that have "\<exists>i < genCount r. g (genCount r) = g i"
      unfolding sessionsOk_def by blast
    with inj show False by (auto dest: injD)
  qed
  let ?ss = "(sids r)[t := Some (g (genCount r))]"
  have tl: "t < length (sids r)" using t by (simp add: sids_def)
  have p1: "\<exists>i < Suc (genCount r). k = g i" if "t' < length (sids r)" "?ss ! t' = Some k" for t' k
  proof (cases "t' = t")
    case True
    with that tl have "k = g (genCount r)" by simp
    then show ?thesis by blast
  next
    case False
    with that have "sids r ! t' = Some k" by simp
    with ok that(1) have "\<exists>i < genCount r. k = g i" unfolding sessionsOk_def by blast
    then show ?thesis using less_Suc_eq by blast
  qed
  have p2: "t1 = t2"
    if "t1 < length (sids r)" "t2 < length (sids r)" "?ss ! t1 = ?ss ! t2" "?ss ! t1 \<noteq> None"
    for t1 t2
  proof (cases "t1 = t")
    case True
    show ?thesis
    proof (rule ccontr)
      assume "t1 \<noteq> t2"
      with that True tl have "sids r ! t2 = Some (g (genCount r))" by simp
      with new [OF that(2)] show False by simp
    qed
  next
    case False
    show ?thesis
    proof (cases "t2 = t")
      case True
      with that False tl have "sids r ! t1 = Some (g (genCount r))" by simp
      with new [OF that(1)] show ?thesis by simp
    next
      case f2: False
      with that False have "sids r ! t1 = sids r ! t2" "sids r ! t1 \<noteq> None" by simp_all
      with ok that(1,2) show ?thesis unfolding sessionsOk_def by blast
    qed
  qed
  show ?thesis
    unfolding sessionsOk_def initializeSession_sids length_list_update
    using p1 p2 by blast
qed


lemma handleRequest_sids:
  "sids (fst (handleRequest cfg gen tr isInit t r raw))
     = sids (if initializes tr \<and> isInit \<and> \<not> initialized (transports r ! t)
             then initializeSession gen t r else r)"
  "genCount (fst (handleRequest cfg gen tr isInit t r raw))
     = genCount (if initializes tr \<and> isInit \<and> \<not> initialized (transports r ! t)
             then initializeSession gen t r else r)"
  by (simp_all add: handleRequest_def Let_def split_beta)

lemma sessionsOk_handleRequest:
  assumes tok: "tableOk r" and ok: "sessionsOk g r" and inj: "inj g"
    and t: "t < length (transports r)"
  shows "sessionsOk g (fst (handleRequest cfg (Some g) tr isInit t r raw))"
proof -
  let ?r1 = "if initializes tr \<and> isInit \<and> \<not> initialized (transports r ! t)
             then initializeSession (Some g) t r else r"
  have "sessionId (transports r ! t) = None" if "\<not> initialized (transports r ! t)"
    using tok t that by (auto simp: tableOk_def)
  then have "sessionsOk g ?r1"
    using ok sessionsOk_init [OF ok inj t] by simp
  then show ?thesis
    by (simp only: sessionsOk_cong [OF handleRequest_sids])
qed

lemma sessionsOk_new:
  assumes "sessionsOk g r"
  shows "sessionsOk g (r\<lparr>transports := transports r @ [newTransport h h']\<rparr>)"
proof -
  have e: "sids (r\<lparr>transports := transports r @ [newTransport h h']\<rparr>) = sids r @ [None]"
    by (simp add: sids_def newTransport_def)
  show ?thesis
    using assms unfolding sessionsOk_def e
    apply (auto simp: nth_append less_Suc_eq)
    apply metis
    done
qed

lemma sessionsOk_post:
  assumes tok: "tableOk r" and ok: "sessionsOk g r" and inj: "inj g"
    and gen: "sessionIdGenerator cfg = Some g"
  shows "sessionsOk g (reg (postHandler cfg e sid isInit r))"
proof (cases "truthyStr sid \<and> truthy (getProp cfg r (the sid))")
  case True
  show ?thesis
  proof (cases "getProp cfg r (the sid)")
    case (JTransport t)
    from tableOk_getProp [OF tok JTransport] have t: "t < length (transports r)" by simp
    from sessionsOk_handleRequest [OF tok ok inj t] True JTransport gen show ?thesis
      by (simp add: postHandler_def handleFastifyRequest_def split_beta)
  qed (use True ok in \<open>simp_all add: postHandler_def\<close>)
next
  case False
  define r0 where "r0 = r\<lparr>transports := transports r @ [newTransport ServerHook ServerHook]\<rparr>"
  have tok0: "tableOk r0" unfolding r0_def by (rule tableOk_new [OF tok])
  have ok0: "sessionsOk g r0" unfolding r0_def by (rule sessionsOk_new [OF ok])
  have "sessionsOk g (fst (handleRequest cfg (Some g) (run e) isInit
                  (length (transports r)) r0 freshRaw))"
    by (rule sessionsOk_handleRequest [OF tok0 ok0 inj]) (simp add: r0_def)
  with False ok ok0 gen show ?thesis
    by (auto simp: postHandler_def handleFastifyRequest_def split_beta Let_def
        r0_def [symmetric])
qed

lemma sessionsOk_getHandler:
  assumes tok: "tableOk r" and ok: "sessionsOk g r" and inj: "inj g"
    and gen: "sessionIdGenerator cfg = Some g"
  shows "sessionsOk g (reg (getHandler cfg e sid r))"
proof (cases "getProp cfg r (the sid)")
  case (JTransport t)
  from tableOk_getProp [OF tok JTransport] have t: "t < length (transports r)" by simp
  from sessionsOk_handleRequest [OF tok ok inj t] JTransport ok gen show ?thesis
    by (simp add: getHandler_def split_beta Let_def writeHead_def freshRaw_def)
qed (use ok in \<open>simp_all add: getHandler_def writeHead_def freshRaw_def\<close>)

lemma deleteHandler_sids:
  "sids (reg (deleteHandler cfg e sid r)) = sids r"
  "genCount (reg (deleteHandler cfg e sid r)) = genCount r"
  by (simp_all add: deleteHandler_def split_beta split: jsval.splits)

lemma shutdownLoop_sids:
  "sids (shutdownLoop cfg cl ks r) = sids r"
  "genCount (shutdownLoop cfg cl ks r) = genCount r"
  by (induction ks arbitrary: r) (simp_all add: shutdownBody_def split_beta split: jsval.splits)

lemma sessionsOk_step:
  assumes tok: "tableOk r" and ok: "sessionsOk g r" and inj: "inj g"
    and gen: "sessionIdGenerator cfg = Some g"
  shows "sessionsOk g (reg (step cfg ev r))"
proof (cases ev)
  case (Post sid isInit e)
  with sessionsOk_post [OF assms] show ?thesis by simp
next
  case (Get sid e)
  with sessionsOk_getHandler [OF assms] show ?thesis by simp
next
  case (Delete sid e)
  with ok show ?thesis by (simp add: sessionsOk_cong [OF deleteHandler_sids])
next
  case (TransportCloses t cr)
  with ok show ?thesis by (simp add: silent_def sessionsOk_cong [OF transportClose_sids])
next
  case (Shutdown cl)
  with ok show ?thesis
    by (simp add: silent_def onCloseHook_def sessionsOk_cong [OF shutdownLoop_sids])
qed

lemma invariants_exec:
  assumes "tableOk r" and "sessionsOk g r" and "inj g" and "sessionIdGenerator cfg = Some g"
  shows "tableOk (exec cfg evs r) \<and> sessionsOk g (exec cfg evs r)"
  using assms
proof (induction evs arbitrary: r)
  case Nil
  then show ?case by simp
next
  case (Cons ev evs)
  from Cons.prems have "tableOk (reg (step cfg ev r))" "sessionsOk g (reg (step cfg ev r))"
    by (simp_all add: tableOk_step sessionsOk_step)
  with Cons.IH [of "reg (step cfg ev r)"] Cons.prems show ?case by simp
qed

lemma reachable_sessionsOk:
  "inj g \<Longrightarrow> sessionIdGenerator cfg = Some g \<Longrightarrow> sessionsOk g (exec cfg evs emptyRegistry)"
  using invariants_exec [OF tableOk_empty sessionsOk_empty] by blast

subsection \<open>The session header of an initialization\<close>

lemma runActs_header:
  "sessionHeader (fst (runActs sidopt as raw)) = Some s \<Longrightarrow>
   sessionHeader raw = Some s \<or> sidopt = Some s"
proof (induction sidopt as raw rule: runActs.induct)
  case (2 sid st as raw)
  then show ?case
    by (auto simp: writeHead_def sessionHeader_def split: option.splits if_splits)
next
  case (3 sid as raw)
  then show ?case
    by (auto simp: rawWrite_def implicitHead_def sessionHeader_def split: option.splits if_splits)
next
  case (4 sid as raw)
  then show ?case
    by (auto simp: rawEnd_def implicitHead_def sessionHeader_def split: option.splits if_splits)
qed simp

lemma catchPost_header:
  "sessionHeader (catchPost raw) = Some s \<Longrightarrow> sessionHeader raw = Some s"
  by (auto simp: catchPost_def replySend_def sessionHeader_def split: if_splits option.splits)

lemma handleRequest_header:
  assumes "sessionHeader (fst (snd (handleRequest cfg gen tr isInit t r freshRaw))) = Some s"
  shows "sessionId (transports (if initializes tr \<and> isInit \<and> \<not> initialized (transports r ! t)
             then initializeSession gen t r else r) ! t) = Some s"
proof -
  let ?r1 = "if initializes tr \<and> isInit \<and> \<not> initialized (transports r ! t)
             then initializeSession gen t r else r"
  let ?sid = "sessionId (transports ?r1 ! t)"
  have "sessionHeader (fst (runActs (if truthyStr ?sid then ?sid else None) (acts tr) freshRaw))
          = Some s"
    using assms by (simp add: handleRequest_def Let_def split_beta)
  from runActs_header [OF this] show ?thesis
    by (auto simp: sessionHeader_def freshRaw_def split: if_splits)
qed

lemma sids_nth: "t < length (transports r) \<Longrightarrow> sids r ! t = sessionId (transports r ! t)"
  by (simp add: sids_def)

lemma sids_length [simp]: "length (sids r) = length (transports r)"
  by (simp add: sids_def)

lemma post_init_header:
  assumes gen: "sessionIdGenerator cfg = Some g" and h: "\<not> truthyStr sid"
    and hd: "sessionHeader (resp (postHandler cfg e sid True r)) = Some s"
  shows "sids (reg (postHandler cfg e sid True r))
           = (sids r @ [None])[length (transports r) := Some s]"
proof -
  define t where "t = length (transports r)"
  define r0 where "r0 = r\<lparr>transports := transports r @ [newTransport ServerHook ServerHook]\<rparr>"
  have s0: "sids r0 = sids r @ [None]" by (simp add: r0_def sids_def newTransport_def)
  have l0: "length (transports r0) = Suc t" by (simp add: r0_def t_def)
  have gc0: "genCount r0 = genCount r" by (simp add: r0_def)
  have fresh: "\<not> initialized (transports r0 ! t)"
    by (simp add: r0_def t_def newTransport_def)
  have f2: "(\<not> truthyStr sid \<and> True) = True" using h by simp
  have f1: "(truthyStr sid \<and> truthy (getProp cfg r (the sid))) = False" using h by simp
  have nc: "\<not> connectFails e"
  proof
    assume c: "connectFails e"
    have "resp (postHandler cfg e sid True r) = catchPost freshRaw"
      unfolding postHandler_def f1 f2 Let_def using c by simp
    with hd have "sessionHeader (catchPost freshRaw) = Some s" by simp
    from catchPost_header [OF this] show False by (simp add: sessionHeader_def freshRaw_def)
  qed
  define hr where "hr = handleRequest cfg (Some g) (run e) True t r0 freshRaw"
  have out: "postHandler cfg e sid True r
      = \<lparr>reg = fst hr,
         resp = (if snd (snd hr) then catchPost (fst (snd hr)) else fst (snd hr)),
         routed = Some t\<rparr>"
    unfolding postHandler_def f1 f2 Let_def handleFastifyRequest_def gen
      t_def [symmetric] r0_def [symmetric] hr_def
    using nc by (simp add: split_beta)
  have hh: "sessionHeader (fst (snd hr)) = Some s"
  proof (cases "snd (snd hr)")
    case True
    with hd have "sessionHeader (catchPost (fst (snd hr))) = Some s" by (simp add: out)
    then show ?thesis by (rule catchPost_header)
  next
    case False
    with hd show ?thesis by (simp add: out)
  qed
  have ini: "initializes (run e)"
  proof (rule ccontr)
    assume "\<not> initializes (run e)"
    with handleRequest_header [OF hh [unfolded hr_def]]
    have "sessionId (transports r0 ! t) = Some s" by simp
    then show False by (simp add: r0_def t_def newTransport_def)
  qed
  with handleRequest_header [OF hh [unfolded hr_def]] fresh
  have sid: "sessionId (transports (initializeSession (Some g) t r0) ! t) = Some s"
    by simp
  have "sids (initializeSession (Some g) t r0) ! t = Some s"
    using sid l0 by (simp add: sids_nth)
  then have gs: "g (genCount r0) = s"
    by (simp add: initializeSession_sids s0 t_def)
  have "sids (fst hr) = sids (initializeSession (Some g) t r0)"
    unfolding hr_def handleRequest_sids using ini fresh by simp
  also have "\<dots> = (sids r @ [None])[t := Some s]"
    by (simp only: initializeSession_sids s0 gs)
  finally show ?thesis
    by (simp add: out t_def)
qed

text \<open>
  Claim C7. Under the hypothesis that the configured generator returns values that are
  unique (\<open>inj g\<close>): when an initialization POST without a prior identifier surfaces a
  session header \<open>s\<close>, no session that was in the table has the identifier \<open>s\<close>, and in
  the table afterwards \<open>s\<close> is the identifier of no Transport but the one just created.
\<close>

theorem fresh_session_header_is_unique:
  assumes gen: "sessionIdGenerator cfg = Some g" and inj: "inj g"
    and h: "\<not> truthyStr sid"
    and hd: "sessionHeader (resp (postHandler cfg e sid True (exec cfg evs emptyRegistry))) = Some s"
  shows "map_of (transportMap (exec cfg evs emptyRegistry)) s = None \<and>
         (\<forall>k t. map_of (transportMap (reg (postHandler cfg e sid True (exec cfg evs emptyRegistry)))) k
                   = Some t \<and> t \<noteq> length (transports (exec cfg evs emptyRegistry)) \<longrightarrow> k \<noteq> s)"
proof -
  define r where "r = exec cfg evs emptyRegistry"
  define r' where "r' = reg (postHandler cfg e sid True r)"
  define n where "n = length (transports r)"
  have tok: "tableOk r" and ok: "sessionsOk g r"
    unfolding r_def by (rule reachable_tableOk, rule reachable_sessionsOk [OF inj gen])
  have tok': "tableOk r'" unfolding r'_def by (rule tableOk_post [OF tok])
  have ok': "sessionsOk g r'" unfolding r'_def by (rule sessionsOk_post [OF tok ok inj gen])
  have s': "sids r' = (sids r @ [None])[n := Some s]"
    using post_init_header [OF gen h, of e r s] hd by (simp add: r'_def r_def n_def)
  have "length (sids r') = length ((sids r @ [None])[n := Some s])"
    by (simp only: s')
  then have len: "length (transports r') = Suc n"
    by (simp add: n_def)
  have new: "sids r' ! n = Some s" by (simp add: s' n_def)
  have uniq: "t = n" if "t < Suc n" "sids r' ! t = Some s" for t
  proof -
    from ok' have u: "\<And>a b. a < length (sids r') \<Longrightarrow> b < length (sids r') \<Longrightarrow>
        sids r' ! a = sids r' ! b \<Longrightarrow> sids r' ! a \<noteq> None \<Longrightarrow> a = b"
      unfolding sessionsOk_def by blast
    show ?thesis by (rule u) (use that new len in simp_all)
  qed
  have a: "map_of (transportMap r) s = None"
  proof (rule ccontr)
    assume "map_of (transportMap r) s \<noteq> None"
    then obtain t where m: "map_of (transportMap r) s = Some t" by blast
    from tableOk_entry [OF tok m] have t: "t < n" "sessionId (transports r ! t) = Some s"
      by (simp_all add: n_def)
    then have "sids r' ! t = Some s"
      by (simp add: s' nth_append sids_nth n_def)
    with uniq [of t] t show False by simp
  qed
  have b: "k \<noteq> s" if "map_of (transportMap r') k = Some t" "t \<noteq> n" for k t
  proof
    assume "k = s"
    with tableOk_entry [OF tok' that(1)] have "t < Suc n" "sids r' ! t = Some s"
      by (simp_all add: len sids_nth)
    with uniq [of t] that(2) show False by simp
  qed
  show ?thesis
    using a b unfolding r_def [symmetric] r'_def [symmetric] n_def [symmetric] by blast
qed

theorem fresh_session_header_is_unique_witness:
  "sessionHeader (resp (postHandler uuidConfig sseEnv None True
      (exec uuidConfig [Post None True sseEnv] emptyRegistry))) = Some ''aa'' \<and>
   map_of (transportMap (exec uuidConfig [Post None True sseEnv] emptyRegistry)) ''aa'' = None"
proof -
  have i: "inj (\<lambda>n. replicate (Suc n) CHR ''a'')"
    by (rule injI) (drule arg_cong [of _ _ length], simp)
  have g: "sessionIdGenerator uuidConfig = Some (\<lambda>n. replicate (Suc n) CHR ''a'')"
    by (simp add: uuidConfig_def)
  have t: "\<not> truthyStr None" by (simp add: truthyStr_def)
  have h: "sessionHeader (resp (postHandler uuidConfig sseEnv None True
      (exec uuidConfig [Post None True sseEnv] emptyRegistry))) = Some ''aa''"
    by (simp only: exec_oneSession)
       (simp add: oneSession_eq postHandler_def truthyStr_def sseEnv_def
         sseRun_def uuidConfig_def handleFastifyRequest_def handleRequest_def Let_def
         newTransport_def initializeSession_def updTransport_def runOnsessioninitialized_def
         setProp_def writeHead_def freshRaw_def rawWrite_def rawEnd_def implicitHead_def
         sessionHeader_def nth_append)
  from fresh_session_header_is_unique [OF g i t h] h show ?thesis by blast
qed

subsection \<open>A terminated session\<close>

lemma retired_upd [simp]: "retired g i (updTransport t f r) = retired g i r"
  by (simp add: retired_def)

lemma retired_delete: "retired g i r \<Longrightarrow> retired g i (deleteProp k r)"
  by (simp add: retired_def)

lemma retired_runOnclose: "retired g i r \<Longrightarrow> retired g i (runOnclose cfg t r)"
  by (simp add: runOnclose_def Let_def retired_delete split: hook.splits)

lemma retired_close: "retired g i r \<Longrightarrow> retired g i (fst (transportClose cfg cr t r))"
  by (simp add: transportClose_def Let_def retired_runOnclose)

lemma retired_setProp:
  assumes "retired g i r" and "inj g" and "neverProto g" and "i < n"
  shows "retired g i (setProp (g n) t r)"
proof -
  have "g n \<noteq> g i" using assms(2,4) by (auto dest: injD)
  moreover have "g n \<noteq> ''__proto__''" using assms(3) by (simp add: neverProto_def)
  ultimately show ?thesis
    using assms(1) by (simp add: retired_def setProp_def update_conv')
qed

lemma retired_init:
  assumes "retired g i r" and "inj g" and "neverProto g"
  shows "retired g i (initializeSession (Some g) t r)"
proof -
  let ?u = "updTransport t (\<lambda>tr. tr\<lparr>sessionId := Some (g (genCount r)), initialized := True\<rparr>)
              (r\<lparr>genCount := Suc (genCount r)\<rparr>)"
  have i: "i < genCount r" using assms(1) by (simp add: retired_def)
  have u: "retired g i ?u" using assms(1) by (simp add: retired_def)
  have e: "initializeSession (Some g) t r = runOnsessioninitialized t (g (genCount r)) ?u"
    by (simp add: initializeSession_def Let_def)
  have "runOnsessioninitialized t (g (genCount r)) ?u = ?u \<or>
        runOnsessioninitialized t (g (genCount r)) ?u = setProp (g (genCount r)) t ?u"
    by (simp add: runOnsessioninitialized_def split: hook.splits)
  then show ?thesis
  proof
    assume "runOnsessioninitialized t (g (genCount r)) ?u = ?u"
    with u show ?thesis by (simp only: e)
  next
    assume "runOnsessioninitialized t (g (genCount r)) ?u = setProp (g (genCount r)) t ?u"
    with retired_setProp [OF u assms(2,3) i] show ?thesis by (simp only: e)
  qed
qed

lemma retired_handleRequest:
  assumes "retired g i r" and "inj g" and "neverProto g"
  shows "retired g i (fst (handleRequest cfg (Some g) tr isInit t r raw))"
  using assms retired_init [OF assms]
  by (simp add: handleRequest_def Let_def split_beta retired_close)

lemma retired_new:
  "retired g i r \<Longrightarrow> retired g i (r\<lparr>transports := transports r @ [tr]\<rparr>)"
  by (simp add: retired_def)

lemma retired_post:
  assumes "retired g i r" and "inj g" and "neverProto g" and "sessionIdGenerator cfg = Some g"
  shows "retired g i (reg (postHandler cfg e sid isInit r))"
  using assms retired_handleRequest [OF assms(1-3)]
    retired_handleRequest [OF retired_new [OF assms(1)] assms(2,3)]
  by (simp add: postHandler_def handleFastifyRequest_def Let_def split_beta retired_new
      split: jsval.splits)

lemma retired_get:
  assumes "retired g i r" and "inj g" and "neverProto g" and "sessionIdGenerator cfg = Some g"
  shows "retired g i (reg (getHandler cfg e sid r))"
  using assms retired_handleRequest [OF assms(1-3)]
  by (simp add: getHandler_def Let_def split_beta writeHead_def freshRaw_def
      split: jsval.splits)

lemma retired_deleteHandler:
  "retired g i r \<Longrightarrow> retired g i (reg (deleteHandler cfg e sid r))"
  by (simp add: deleteHandler_def split_beta retired_close retired_delete split: jsval.splits)

lemma retired_shutdownLoop:
  "retired g i r \<Longrightarrow> retired g i (shutdownLoop cfg cl ks r)"
  by (induction ks arbitrary: r)
     (simp_all add: shutdownBody_def split_beta retired_close retired_delete
        split: jsval.splits)

lemma retired_step:
  assumes "retired g i r" and "inj g" and "neverProto g" and "sessionIdGenerator cfg = Some g"
  shows "retired g i (reg (step cfg ev r))"
  using assms
  by (cases ev)
     (simp_all add: retired_post retired_get retired_deleteHandler retired_close
        retired_shutdownLoop onCloseHook_def silent_def)

lemma retired_exec:
  assumes "retired g i r" and "inj g" and "neverProto g" and "sessionIdGenerator cfg = Some g"
  shows "retired g i (exec cfg evs r)"
  using assms by (induction evs arbitrary: r) (simp_all add: retired_step)


lemma transportClose_protoT [simp]: "protoT (fst (transportClose cfg cr t r)) = protoT r"
  by (simp add: transportClose_def Let_def runOnclose_def split: hook.splits)

lemma delete_ack:
  assumes "observedStatus (resp (deleteHandler cfg e sid r)) = Some 200"
  shows "\<exists>t. truthyStr sid \<and> getProp cfg r (the sid) = JTransport t \<and>
             reg (deleteHandler cfg e sid r)
               = deleteProp (the sid) (fst (transportClose cfg (closing e) t r))"
proof (cases "\<not> truthyStr sid \<or> \<not> truthy (getProp cfg r (the sid))")
  case True
  then have "resp (deleteHandler cfg e sid r) = replySend 400 invalidSession freshRaw"
    by (simp add: deleteHandler_def)
  with assms show ?thesis by (simp add: replySend_fresh)
next
  case False
  have c: "observedStatus (catchDelete freshRaw) = Some 500"
    by (simp add: catchDelete_def replySend_fresh freshRaw_def [symmetric])
       (simp add: freshRaw_def)
  show ?thesis
  proof (cases "getProp cfg r (the sid)")
    case (JTransport t)
    show ?thesis
    proof (cases "snd (transportClose cfg (closing e) t r)")
      case True
      with False JTransport have "resp (deleteHandler cfg e sid r) = catchDelete freshRaw"
        by (simp add: deleteHandler_def split_beta)
      with assms c show ?thesis by simp
    next
      case f: False
      with False JTransport show ?thesis
        by (simp add: deleteHandler_def split_beta)
    qed
  next
    case JUndefined
    with False show ?thesis by (simp add: truthy_def)
  next
    case JOther
    with False have "resp (deleteHandler cfg e sid r) = catchDelete freshRaw"
      by (simp add: deleteHandler_def)
    with assms c show ?thesis by simp
  qed
qed

lemma reachable_protoT:
  assumes gen: "sessionIdGenerator cfg = Some g" and inj: "inj g" and np: "neverProto g"
  shows "protoT (exec cfg evs emptyRegistry) = None"
proof (rule ccontr)
  define r where "r = exec cfg evs emptyRegistry"
  assume "protoT (exec cfg evs emptyRegistry) \<noteq> None"
  then obtain t where p: "protoT r = Some t" by (auto simp: r_def)
  have tok: "tableOk r" and ok: "sessionsOk g r"
    unfolding r_def by (rule reachable_tableOk, rule reachable_sessionsOk [OF inj gen])
  from tok p have "t < length (transports r)" "sessionId (transports r ! t) = Some ''__proto__''"
    by (simp_all add: tableOk_def)
  then have "t < length (sids r)" "sids r ! t = Some ''__proto__''"
    by (simp_all add: sids_nth)
  with ok have "\<exists>i < genCount r. ''__proto__'' = g i"
    unfolding sessionsOk_def by blast
  with np show False by (auto simp: neverProto_def)
qed

lemma uuid_inj: "inj (\<lambda>n. replicate (Suc n) CHR ''a'')"
  by (rule injI) (drule arg_cong [of _ _ length], simp)

text \<open>
  Where the code keeps a terminated session invalid. Let the generator return unique
  values, none of them \<open>__proto__\<close>, and let \<open>S\<close> not be the name of a member of
  \<open>Object.prototype\<close>. Once a DELETE bearing \<open>S\<close> has been acknowledged with status 200,
  then after any further events every POST, GET and DELETE bearing \<open>S\<close> is answered with
  status 400, leaves the registry as it is and is routed to no Transport.
\<close>

lemma deleted_session_stays_invalid:
  assumes gen: "sessionIdGenerator cfg = Some g" and inj: "inj g" and np: "neverProto g"
    and S: "S \<notin> set objectPrototypeNames"
    and ack: "observedStatus (resp (deleteHandler cfg e (Some S) (exec cfg evs emptyRegistry)))
                = Some 200"
  shows "postHandler cfg e' (Some S) isInit
           (exec cfg evs' (reg (deleteHandler cfg e (Some S) (exec cfg evs emptyRegistry))))
         = \<lparr>reg = exec cfg evs' (reg (deleteHandler cfg e (Some S) (exec cfg evs emptyRegistry))),
            resp = replySend 400 noValidSession freshRaw, routed = None\<rparr> \<and>
         getHandler cfg e' (Some S)
           (exec cfg evs' (reg (deleteHandler cfg e (Some S) (exec cfg evs emptyRegistry))))
         = \<lparr>reg = exec cfg evs' (reg (deleteHandler cfg e (Some S) (exec cfg evs emptyRegistry))),
            resp = replySend 400 invalidSession freshRaw, routed = None\<rparr> \<and>
         deleteHandler cfg e' (Some S)
           (exec cfg evs' (reg (deleteHandler cfg e (Some S) (exec cfg evs emptyRegistry))))
         = \<lparr>reg = exec cfg evs' (reg (deleteHandler cfg e (Some S) (exec cfg evs emptyRegistry))),
            resp = replySend 400 invalidSession freshRaw, routed = None\<rparr> \<and>
         observedStatus (replySend 400 noValidSession freshRaw) = Some 400 \<and>
         observedStatus (replySend 400 invalidSession freshRaw) = Some 400"
proof -
  define r where "r = exec cfg evs emptyRegistry"
  define r1 where "r1 = reg (deleteHandler cfg e (Some S) r)"
  define r2 where "r2 = exec cfg evs' r1"
  have tok: "tableOk r" and ok: "sessionsOk g r"
    unfolding r_def by (rule reachable_tableOk, rule reachable_sessionsOk [OF inj gen])
  have p: "protoT r = None" unfolding r_def by (rule reachable_protoT [OF gen inj np])
  from delete_ack [OF ack [folded r_def]] obtain t where
    gp: "getProp cfg r S = JTransport t" and
    r1: "r1 = deleteProp S (fst (transportClose cfg (closing e) t r))"
    by (auto simp: r1_def)
  have m: "map_of (transportMap r) S = Some t"
    using getProp_cases [OF tok gp] p by simp
  from tableOk_entry [OF tok m]
  have ne: "S \<noteq> []" and tl: "t < length (sids r)" and sid: "sids r ! t = Some S"
    by (simp_all add: sids_nth)
  from ok tl sid obtain i where i: "i < genCount r" "S = g i"
    unfolding sessionsOk_def by blast
  have "retired g i r1"
    using p i by (simp add: retired_def r1)
  then have "retired g i r2"
    unfolding r2_def by (rule retired_exec [OF _ inj np gen])
  then have "map_of (transportMap r2) S = None" "protoT r2 = None"
    by (simp_all add: retired_def i)
  moreover have "S \<noteq> ''__proto__''" using np i by (simp add: neverProto_def)
  ultimately have u: "getProp cfg r2 S = JUndefined"
    using S by (simp add: getProp_unknown)
  have t: "truthyStr (Some S)" using ne by (simp add: truthyStr_def)
  have "postHandler cfg e' (Some S) isInit r2
          = \<lparr>reg = r2, resp = replySend 400 noValidSession freshRaw, routed = None\<rparr>"
    using u t by (simp add: postHandler_def truthy_def)
  moreover have "getHandler cfg e' (Some S) r2
          = \<lparr>reg = r2, resp = replySend 400 invalidSession freshRaw, routed = None\<rparr>"
    using u t by (simp add: getHandler_def truthy_def)
  moreover have "deleteHandler cfg e' (Some S) r2
          = \<lparr>reg = r2, resp = replySend 400 invalidSession freshRaw, routed = None\<rparr>"
    using u t by (simp add: deleteHandler_def truthy_def)
  ultimately show ?thesis
    unfolding r2_def r1_def r_def by (simp add: replySend_fresh)
qed

lemma constructorGenerator_inj: "inj constructorGenerator"
proof (rule injI)
  fix m n assume e: "constructorGenerator m = constructorGenerator n"
  have c: "\<And>k. replicate k CHR ''a'' \<noteq> ''constructor''"
  proof
    fix k assume "replicate k CHR ''a'' = ''constructor''"
    then have "set (replicate k CHR ''a'') = set ''constructor''" by simp
    moreover have "CHR ''c'' \<in> set ''constructor''" by simp
    ultimately have "CHR ''c'' \<in> set (replicate k CHR ''a'')" by blast
    then show False by simp
  qed
  show "m = n"
  proof (cases "m = 0")
    case True
    with e c [of n] show ?thesis by (auto simp: constructorGenerator_def split: if_splits)
  next
    case False
    with e c [of m] have "n \<noteq> 0" "replicate m CHR ''a'' = replicate n CHR ''a''"
      by (auto simp: constructorGenerator_def split: if_splits)
    then show ?thesis by (auto dest: arg_cong [of _ _ length])
  qed
qed

lemma constructor_session:
  "exec constructorConfig [Post None True sseEnv] emptyRegistry
      = \<lparr>transportMap = [(''constructor'', 0)], protoT = None,
         transports = [\<lparr>sessionId = Some ''constructor'', initialized = True, closed = False,
             closeCalls = 0, onsessioninitialized = ServerHook, onclose = ServerHook\<rparr>],
         genCount = 1\<rparr>"
  by (simp add: postHandler_def truthyStr_def emptyRegistry_def sseEnv_def
      sseRun_def constructorConfig_def constructorGenerator_def handleFastifyRequest_def
      handleRequest_def Let_def
      newTransport_def initializeSession_def updTransport_def runOnsessioninitialized_def
      setProp_def writeHead_def freshRaw_def rawWrite_def rawEnd_def implicitHead_def)

lemma constructor_deleted:
  "deleteHandler constructorConfig sseEnv (Some ''constructor'')
              \<lparr>transportMap = [(''constructor'', 0)], protoT = None,
         transports = [\<lparr>sessionId = Some ''constructor'', initialized = True, closed = False,
             closeCalls = 0, onsessioninitialized = ServerHook, onclose = ServerHook\<rparr>],
         genCount = 1\<rparr>
      = \<lparr>reg = \<lparr>transportMap = [], protoT = None,
         transports = [\<lparr>sessionId = Some ''constructor'', initialized = True, closed = True,
             closeCalls = 1, onsessioninitialized = ServerHook, onclose = ServerHook\<rparr>],
         genCount = 1\<rparr>,
         resp = \<lparr>head = Some (200, None), statusCode = 200, chunks = [], writableEnded = True\<rparr>,
         routed = None\<rparr>"
  by (simp add: deleteHandler_def truthyStr_def truthy_def getProp_def
          transportClose_def sseEnv_def closeOk_def Let_def updTransport_def runOnclose_def
          deleteProp_def endIfOpen_def rawEnd_def implicitHead_def freshRaw_def replySend_def
          writeHead_def rawWrite_def)

lemma constructor_after:
  "exec constructorConfig [Post None True sseEnv, Delete (Some ''constructor'') sseEnv]
     emptyRegistry
   = \<lparr>transportMap = [], protoT = None,
         transports = [\<lparr>sessionId = Some ''constructor'', initialized = True, closed = True,
             closeCalls = 1, onsessioninitialized = ServerHook, onclose = ServerHook\<rparr>],
         genCount = 1\<rparr>"
  using constructor_session constructor_deleted by simp

text \<open>
  Claim C1, at an input where the code departs from it. The generator returns unique
  values and its first value is \<open>constructor\<close>. The initialization binds the session
  \<open>constructor\<close>, and the DELETE bearing it is acknowledged with status 200. After that the
  key is gone from the table, but the read \<open>transportMap["constructor"]\<close> finds the member
  the table object inherits from \<open>Object.prototype\<close>: a POST bearing the identifier is
  answered with status 500 and the envelope with code -32603, a GET with status 200 and an
  empty stream, a DELETE with status 500 and the plain text "Error processing session
  termination". None of them is answered with status 400.
\<close>

theorem deleted_constructor_session_is_not_400:
  "sessionIdGenerator constructorConfig = Some constructorGenerator \<and> inj constructorGenerator \<and>
   map_of (transportMap (exec constructorConfig [Post None True sseEnv] emptyRegistry))
     ''constructor'' = Some 0 \<and>
   observedStatus (resp (deleteHandler constructorConfig sseEnv (Some ''constructor'')
      (exec constructorConfig [Post None True sseEnv] emptyRegistry))) = Some 200 \<and>
   observedStatus (resp (postHandler constructorConfig e (Some ''constructor'') isInit
      (exec constructorConfig [Post None True sseEnv, Delete (Some ''constructor'') sseEnv]
         emptyRegistry))) = Some 500 \<and>
   chunks (resp (postHandler constructorConfig e (Some ''constructor'') isInit
      (exec constructorConfig [Post None True sseEnv, Delete (Some ''constructor'') sseEnv]
         emptyRegistry))) = [Envelope (- 32603) ''Internal server error''] \<and>
   observedStatus (resp (getHandler constructorConfig e (Some ''constructor'')
      (exec constructorConfig [Post None True sseEnv, Delete (Some ''constructor'') sseEnv]
         emptyRegistry))) = Some 200 \<and>
   observedStatus (resp (deleteHandler constructorConfig e (Some ''constructor'')
      (exec constructorConfig [Post None True sseEnv, Delete (Some ''constructor'') sseEnv]
         emptyRegistry))) = Some 500 \<and>
   chunks (resp (deleteHandler constructorConfig e (Some ''constructor'')
      (exec constructorConfig [Post None True sseEnv, Delete (Some ''constructor'') sseEnv]
         emptyRegistry))) = [PlainText ''Error processing session termination'']"
proof -
  have g: "\<And>ts n. getProp constructorConfig
       \<lparr>transportMap = [], protoT = None, transports = ts, genCount = n\<rparr> ''constructor''
         = JOther"
    by (simp add: getProp_def objectPrototypeNames_def)
  have t: "truthyStr (Some ''constructor'')" by (simp add: truthyStr_def)
  have 1: "sessionIdGenerator constructorConfig = Some constructorGenerator"
    by (simp add: constructorConfig_def)
  have 2: "map_of (transportMap (exec constructorConfig [Post None True sseEnv] emptyRegistry))
     ''constructor'' = Some 0"
    by (simp only: constructor_session) simp
  have 3: "observedStatus (resp (deleteHandler constructorConfig sseEnv (Some ''constructor'')
      (exec constructorConfig [Post None True sseEnv] emptyRegistry))) = Some 200"
    by (simp only: constructor_session constructor_deleted) (simp add: observedStatus_def)
  have 4: "resp (postHandler constructorConfig e (Some ''constructor'') isInit
      (exec constructorConfig [Post None True sseEnv, Delete (Some ''constructor'') sseEnv]
         emptyRegistry)) = replySend 500 internalError freshRaw"
    by (simp only: constructor_after)
       (simp add: postHandler_def g t truthy_def catchPost_fresh)
  have 5: "observedStatus (resp (getHandler constructorConfig e (Some ''constructor'')
      (exec constructorConfig [Post None True sseEnv, Delete (Some ''constructor'') sseEnv]
         emptyRegistry))) = Some 200"
    by (simp only: constructor_after)
       (simp add: getHandler_def g t truthy_def writeHead_def freshRaw_def endIfOpen_def
          rawEnd_def implicitHead_def observedStatus_def)
  have 6: "resp (deleteHandler constructorConfig e (Some ''constructor'')
      (exec constructorConfig [Post None True sseEnv, Delete (Some ''constructor'') sseEnv]
         emptyRegistry)) = replySend 500 terminationError freshRaw"
    by (simp only: constructor_after)
       (simp add: deleteHandler_def g t truthy_def catchDelete_fresh)
  from 1 2 3 4 5 6 constructorGenerator_inj show ?thesis
    by (simp add: replySend_fresh internalError_def terminationError_def)
qed

theorem deleted_constructor_session_is_not_400_witness:
  "observedStatus (resp (deleteHandler constructorConfig sseEnv (Some ''constructor'')
      (exec constructorConfig [Post None True sseEnv] emptyRegistry))) = Some 200 \<and>
   observedStatus (resp (postHandler constructorConfig sseEnv (Some ''constructor'') False
      (exec constructorConfig [Post None True sseEnv, Delete (Some ''constructor'') sseEnv]
         emptyRegistry))) = Some 500 \<and>
   observedStatus (resp (getHandler constructorConfig sseEnv (Some ''constructor'')
      (exec constructorConfig [Post None True sseEnv, Delete (Some ''constructor'') sseEnv]
         emptyRegistry))) = Some 200 \<and>
   observedStatus (resp (deleteHandler constructorConfig sseEnv (Some ''constructor'')
      (exec constructorConfig [Post None True sseEnv, Delete (Some ''constructor'') sseEnv]
         emptyRegistry))) = Some 500"
  using deleted_constructor_session_is_not_400 [of sseEnv False] by blast

subsection \<open>How the table changes\<close>

lemma onlyCloses_refl: "onlyCloses r r"
  by (simp add: onlyCloses_def)

lemma onlyCloses_trans:
  assumes a: "onlyCloses r r'" and b: "onlyCloses r' r''"
    and tl: "\<forall>k t. map_of (transportMap r) k = Some t \<longrightarrow> t < length (transports r)"
  shows "onlyCloses r r''"
proof -
  have len: "length (transports r) \<le> length (transports r')"
    "length (transports r) \<le> length (transports r'')"
    using a b by (simp_all add: onlyCloses_def)
  have ins: "map_of (transportMap r) k = Some t" if "map_of (transportMap r'') k = Some t" for k t
    using a b that unfolding onlyCloses_def by blast
  have mono: "closeCalls (transports r ! t) \<le> closeCalls (transports r'' ! t) \<and>
              (closed (transports r ! t) \<longrightarrow> closed (transports r'' ! t))"
    if "t < length (transports r)" for t
  proof -
    from a that have 1: "closeCalls (transports r ! t) \<le> closeCalls (transports r' ! t)"
      "closed (transports r ! t) \<longrightarrow> closed (transports r' ! t)"
      unfolding onlyCloses_def by blast+
    from b that len have 2: "closeCalls (transports r' ! t) \<le> closeCalls (transports r'' ! t)"
      "closed (transports r' ! t) \<longrightarrow> closed (transports r'' ! t)"
      unfolding onlyCloses_def by simp_all
    from 1 2 show ?thesis by auto
  qed
  have rem: "closed (transports r'' ! t) \<and>
             closeCalls (transports r ! t) < closeCalls (transports r'' ! t)"
    if m: "map_of (transportMap r) k = Some t" and n: "map_of (transportMap r'') k \<noteq> Some t"
    for k t
  proof -
    have t: "t < length (transports r)" using tl m by blast
    show ?thesis
    proof (cases "map_of (transportMap r') k = Some t")
      case True
      with b n have "closed (transports r'' ! t)"
        "closeCalls (transports r' ! t) < closeCalls (transports r'' ! t)"
        unfolding onlyCloses_def by blast+
      moreover from a t have "closeCalls (transports r ! t) \<le> closeCalls (transports r' ! t)"
        unfolding onlyCloses_def by blast
      ultimately show ?thesis by simp
    next
      case False
      with a m have "closed (transports r' ! t)"
        "closeCalls (transports r ! t) < closeCalls (transports r' ! t)"
        unfolding onlyCloses_def by blast+
      moreover from b t len have "closeCalls (transports r' ! t) \<le> closeCalls (transports r'' ! t)"
        "closed (transports r' ! t) \<longrightarrow> closed (transports r'' ! t)"
        unfolding onlyCloses_def by simp_all
      ultimately show ?thesis by simp
    qed
  qed
  show ?thesis
    unfolding onlyCloses_def using len ins mono rem by blast
qed

lemma tableOk_bound:
  "tableOk r \<Longrightarrow> \<forall>k t. map_of (transportMap r) k = Some t \<longrightarrow> t < length (transports r)"
  by (simp add: tableOk_def)

lemma transportClose_closed_other:
  "t' < length (transports r) \<Longrightarrow> t' \<noteq> t \<Longrightarrow>
   closed (transports (fst (transportClose cfg cr t r)) ! t') = closed (transports r ! t')"
  by (simp add: transportClose_def Let_def updTransport_nth)

lemma close_absent_table:
  assumes tok: "tableOk r" and ok: "sessionsOk g r" and t: "t < length (transports r)"
    and none: "\<forall>k. map_of (transportMap r) k \<noteq> Some t"
  shows "transportMap (fst (transportClose cfg cr t r)) = transportMap r"
proof -
  have hook: "onclose (transports r ! t) = ServerHook"
    using tok t by (simp add: tableOk_def)
  have "map_of (transportMap r) k = None" if "sessionId (transports r ! t) = Some k" for k
  proof (rule ccontr)
    assume "map_of (transportMap r) k \<noteq> None"
    then obtain t' where m: "map_of (transportMap r) k = Some t'" by blast
    from tableOk_entry [OF tok m] that t
    have "t' < length (sids r)" "t < length (sids r)" "sids r ! t' = sids r ! t"
      "sids r ! t' \<noteq> None"
      by (simp_all add: sids_nth)
    with ok have "t' = t" unfolding sessionsOk_def by blast
    with m none show False by simp
  qed
  then have "AList.delete (the (sessionId (transports r ! t))) (transportMap r) = transportMap r"
    if "truthyStr (sessionId (transports r ! t))"
    using that by (cases "sessionId (transports r ! t)") (simp_all add: truthyStr_def delete_absent)
  then show ?thesis
    using hook t
    by (simp add: transportClose_def Let_def runOnclose_def updTransport_nth deleteProp_def)
qed

lemma onlyCloses_close:
  assumes tok: "tableOk r" and ok: "sessionsOk g r" and t: "t < length (transports r)"
  shows "onlyCloses r (fst (transportClose cfg cr t r))"
proof -
  let ?r' = "fst (transportClose cfg cr t r)"
  have calls: "closeCalls (transports ?r' ! t')
      = (if t' = t then Suc (closeCalls (transports r ! t)) else closeCalls (transports r ! t'))"
    if "t' < length (transports r)" for t'
    by (rule transportClose_closeCalls [OF that])
  have mono: "\<forall>t' < length (transports r).
         closeCalls (transports r ! t') \<le> closeCalls (transports ?r' ! t') \<and>
         (closed (transports r ! t') \<longrightarrow> closed (transports ?r' ! t'))"
    using calls by (simp add: transportClose_closed_mono)
  show ?thesis
  proof (cases "\<exists>k. map_of (transportMap r) k = Some t")
    case True
    then obtain k where m: "map_of (transportMap r) k = Some t" by blast
    note tab = close_entry_table [OF tok m, of cfg cr]
    show ?thesis
    proof (cases "closeFails cr \<and> \<not> oncloseBeforeFailure cr")
      case True
      with tab mono show ?thesis by (simp add: onlyCloses_def)
    next
      case False
      have tab': "map_of (transportMap ?r') = (map_of (transportMap r))(k := None)"
        using False tab by (auto simp: delete_conv')
      have c: "closed (transports ?r' ! t)"
        using False by (intro transportClose_closes [OF t]) simp
      have ins: "map_of (transportMap r) k' = Some t'"
        if "map_of (transportMap ?r') k' = Some t'" for k' t'
        using that by (simp add: tab' split: if_splits)
      have rem: "t' = t"
        if "map_of (transportMap r) k' = Some t'" "map_of (transportMap ?r') k' \<noteq> Some t'"
        for k' t'
      proof -
        from that have "k' = k" by (simp add: tab' split: if_splits)
        with that(1) m show ?thesis by simp
      qed
      have inc: "closeCalls (transports r ! t) < closeCalls (transports ?r' ! t)"
        using calls [OF t] by simp
      show ?thesis
        unfolding onlyCloses_def
      proof (intro conjI allI impI)
        show "length (transports r) \<le> length (transports ?r')" by simp
      next
        fix k' t' assume "map_of (transportMap ?r') k' = Some t'"
        then show "map_of (transportMap r) k' = Some t'" by (rule ins)
      next
        fix k' t'
        assume a: "map_of (transportMap r) k' = Some t' \<and> map_of (transportMap ?r') k' \<noteq> Some t'"
        then have "t' = t" using rem by blast
        with c show "closed (transports ?r' ! t')" by simp
      next
        fix k' t'
        assume a: "map_of (transportMap r) k' = Some t' \<and> map_of (transportMap ?r') k' \<noteq> Some t'"
        then have "t' = t" using rem by blast
        with inc show "closeCalls (transports r ! t') < closeCalls (transports ?r' ! t')" by simp
      next
        fix t' assume "t' < length (transports r)"
        with mono show "closeCalls (transports r ! t') \<le> closeCalls (transports ?r' ! t')"
          by blast
      next
        fix t' assume "t' < length (transports r)" "closed (transports r ! t')"
        with mono show "closed (transports ?r' ! t')" by blast
      qed
    qed
  next
    case False
    then have "transportMap ?r' = transportMap r"
      by (intro close_absent_table [OF tok ok t]) simp
    with mono show ?thesis by (simp add: onlyCloses_def)
  qed
qed

lemma onlyCloses_closeAndDelete:
  assumes tok: "tableOk r" and ok: "sessionsOk g r" and gp: "getProp cfg r k = JTransport t"
  shows "onlyCloses r (if snd (transportClose cfg cr t r) then fst (transportClose cfg cr t r)
                       else deleteProp k (fst (transportClose cfg cr t r)))"
proof -
  let ?r1 = "fst (transportClose cfg cr t r)"
  from tableOk_getProp [OF tok gp] have t: "t < length (transports r)" by simp
  have c: "onlyCloses r ?r1" by (rule onlyCloses_close [OF tok ok t])
  have "transportMap (deleteProp k ?r1) = transportMap ?r1"
    if nt: "\<not> snd (transportClose cfg cr t r)"
  proof -
    from getProp_cases [OF tok gp] show ?thesis
    proof
      assume m: "map_of (transportMap r) k = Some t"
      from close_entry_threw [OF tok m, of cfg cr] nt have "\<not> closeFails cr" by simp
      with close_entry_table [OF tok m, of cfg cr] show ?thesis
        by (simp add: deleteProp_def delete_idem)
    next
      assume m: "map_of (transportMap r) k = None \<and> protoT r = Some t"
      with close_proto_table [OF tok, of t cfg cr] show ?thesis
        by (simp add: deleteProp_def delete_absent)
    qed
  qed
  then have "onlyCloses r (deleteProp k ?r1)" if "\<not> snd (transportClose cfg cr t r)"
    using c that by (simp add: onlyCloses_def)
  with c show ?thesis by simp
qed


lemma onlyCloses_handleRequest:
  assumes tok: "tableOk r" and ok: "sessionsOk g r" and t: "t < length (transports r)"
    and ini: "initialized (transports r ! t)"
  shows "onlyCloses r (fst (handleRequest cfg gen tr isInit t r raw))"
  using ini onlyCloses_close [OF tok ok t, of cfg] onlyCloses_refl [of r]
  by (simp add: handleRequest_def Let_def split_beta)

lemma onlyCloses_getHandler:
  assumes tok: "tableOk r" and ok: "sessionsOk g r"
  shows "onlyCloses r (reg (getHandler cfg e sid r))"
proof (cases "getProp cfg r (the sid)")
  case (JTransport t)
  from tableOk_getProp [OF tok JTransport]
  have t: "t < length (transports r)" "initialized (transports r ! t)" by auto
  from onlyCloses_handleRequest [OF tok ok t] JTransport onlyCloses_refl [of r] show ?thesis
    by (simp add: getHandler_def split_beta Let_def writeHead_def freshRaw_def)
qed (simp_all add: getHandler_def writeHead_def freshRaw_def onlyCloses_refl)

lemma onlyCloses_deleteHandler:
  assumes tok: "tableOk r" and ok: "sessionsOk g r"
  shows "onlyCloses r (reg (deleteHandler cfg e sid r))"
proof (cases "getProp cfg r (the sid)")
  case (JTransport t)
  from onlyCloses_closeAndDelete [OF tok ok JTransport, of "closing e"] JTransport
    onlyCloses_refl [of r]
  show ?thesis
    by (auto simp: deleteHandler_def split_beta split: if_splits)
qed (simp_all add: deleteHandler_def onlyCloses_refl)

lemma onlyCloses_shutdownBody:
  assumes tok: "tableOk r" and ok: "sessionsOk g r"
  shows "onlyCloses r (shutdownBody cfg cl k r)"
proof (cases "getProp cfg r k")
  case (JTransport t)
  from onlyCloses_closeAndDelete [OF tok ok JTransport, of "cl t"] JTransport
  show ?thesis
    by (auto simp: shutdownBody_def split_beta split: if_splits)
qed (simp_all add: shutdownBody_def onlyCloses_refl)

lemma shutdownBody_sids:
  "sids (shutdownBody cfg cl k r) = sids r"
  "genCount (shutdownBody cfg cl k r) = genCount r"
  by (simp_all add: shutdownBody_def split_beta split: jsval.splits)

lemma sessionsOk_shutdownBody:
  "sessionsOk g r \<Longrightarrow> sessionsOk g (shutdownBody cfg cl k r)"
  by (simp add: sessionsOk_cong [OF shutdownBody_sids])

lemma onlyCloses_shutdownLoop:
  assumes "tableOk r" and "sessionsOk g r"
  shows "onlyCloses r (shutdownLoop cfg cl ks r)"
  using assms
proof (induction ks arbitrary: r)
  case Nil
  then show ?case by (simp add: onlyCloses_refl)
next
  case (Cons k ks)
  let ?r1 = "if present cfg r k then shutdownBody cfg cl k r else r"
  have 1: "onlyCloses r ?r1"
    using onlyCloses_shutdownBody [OF Cons.prems] by (simp add: onlyCloses_refl)
  have "tableOk ?r1" "sessionsOk g ?r1"
    using Cons.prems by (simp_all add: tableOk_shutdownBody sessionsOk_shutdownBody)
  then have 2: "onlyCloses ?r1 (shutdownLoop cfg cl ks ?r1)" by (rule Cons.IH)
  from onlyCloses_trans [OF 1 2 tableOk_bound [OF Cons.prems(1)]] show ?case by simp
qed

lemma onlyCloses_post_known:
  assumes tok: "tableOk r" and ok: "sessionsOk g r"
    and known: "truthyStr sid \<and> truthy (getProp cfg r (the sid))"
  shows "onlyCloses r (reg (postHandler cfg e sid isInit r))"
proof (cases "getProp cfg r (the sid)")
  case (JTransport t)
  from tableOk_getProp [OF tok JTransport]
  have t: "t < length (transports r)" "initialized (transports r ! t)" by auto
  from onlyCloses_handleRequest [OF tok ok t] JTransport known show ?thesis
    by (simp add: postHandler_def handleFastifyRequest_def split_beta)
qed (use known in \<open>simp_all add: postHandler_def onlyCloses_refl\<close>)

lemma onlyCloses_post_rejected:
  assumes "\<not> (truthyStr sid \<and> truthy (getProp cfg r (the sid)))" and "\<not> (\<not> truthyStr sid \<and> isInit)"
  shows "reg (postHandler cfg e sid isInit r) = r"
  using assms by (auto simp: postHandler_def)


lemma fresh_key:
  assumes tok: "tableOk r" and ok: "sessionsOk g r" and inj: "inj g"
  shows "map_of (transportMap r) (g (genCount r)) = None"
proof (rule ccontr)
  assume "map_of (transportMap r) (g (genCount r)) \<noteq> None"
  then obtain t where m: "map_of (transportMap r) (g (genCount r)) = Some t" by blast
  from tableOk_entry [OF tok m]
  have "t < length (sids r)" "sids r ! t = Some (g (genCount r))" by (simp_all add: sids_nth)
  with ok have "\<exists>i < genCount r. g (genCount r) = g i" unfolding sessionsOk_def by blast
  with inj show False by (auto dest: injD)
qed

lemma init_table:
  "map_of (transportMap (initializeSession (Some g) t r)) = map_of (transportMap r) \<or>
   map_of (transportMap (initializeSession (Some g) t r))
     = (map_of (transportMap r))(g (genCount r) \<mapsto> t)"
proof -
  let ?u = "updTransport t (\<lambda>tr. tr\<lparr>sessionId := Some (g (genCount r)), initialized := True\<rparr>)
              (r\<lparr>genCount := Suc (genCount r)\<rparr>)"
  have e: "initializeSession (Some g) t r = runOnsessioninitialized t (g (genCount r)) ?u"
    by (simp add: initializeSession_def Let_def)
  have "runOnsessioninitialized t (g (genCount r)) ?u = ?u \<or>
        runOnsessioninitialized t (g (genCount r)) ?u = setProp (g (genCount r)) t ?u"
    by (simp add: runOnsessioninitialized_def split: hook.splits)
  then show ?thesis
  proof
    assume "runOnsessioninitialized t (g (genCount r)) ?u = ?u"
    then show ?thesis by (simp add: e)
  next
    assume "runOnsessioninitialized t (g (genCount r)) ?u = setProp (g (genCount r)) t ?u"
    then show ?thesis by (simp add: e setProp_def update_conv')
  qed
qed

lemma init_closeCalls:
  "t' < length (transports r) \<Longrightarrow>
   closeCalls (transports (initializeSession gen t r) ! t') = closeCalls (transports r ! t')"
  by (simp add: initializeSession_def Let_def runOnsessioninitialized_def setProp_def
      updTransport_nth split: option.splits hook.splits)

lemma post_new_effect:
  assumes tok: "tableOk r" and ok: "sessionsOk g r" and inj: "inj g"
    and gen: "sessionIdGenerator cfg = Some g" and h: "\<not> truthyStr sid"
  shows "(\<forall>k t. map_of (transportMap r) k = Some t \<longrightarrow>
            map_of (transportMap (reg (postHandler cfg e sid True r))) k = Some t) \<and>
         (\<forall>k t. map_of (transportMap (reg (postHandler cfg e sid True r))) k = Some t \<and>
                 map_of (transportMap r) k \<noteq> Some t \<longrightarrow>
            t = length (transports r) \<and>
            sessionId (transports (reg (postHandler cfg e sid True r)) ! t) = Some k)"
proof -
  define n where "n = length (transports r)"
  define r0 where "r0 = r\<lparr>transports := transports r @ [newTransport ServerHook ServerHook]\<rparr>"
  define r1 where "r1 = (if initializes (run e) then initializeSession (Some g) n r0 else r0)"
  define r' where "r' = reg (postHandler cfg e sid True r)"
  have tok0: "tableOk r0" unfolding r0_def by (rule tableOk_new [OF tok])
  have ok0: "sessionsOk g r0" unfolding r0_def by (rule sessionsOk_new [OF ok])
  have n0: "n < length (transports r0)" by (simp add: r0_def n_def)
  have fresh: "\<not> initialized (transports r0 ! n)" "\<not> closed (transports r0 ! n)"
    "sessionId (transports r0 ! n) = None"
    by (simp_all add: r0_def n_def newTransport_def)
  have tok1: "tableOk r1"
    using tok0 tableOk_init [OF tok0 n0 fresh(1,2)] by (simp add: r1_def)
  have ok1: "sessionsOk g r1"
    using ok0 sessionsOk_init [OF ok0 inj n0 fresh(3)] by (simp add: r1_def)
  have n1: "n < length (transports r1)" using n0 by (simp add: r1_def)
  have t0: "transportMap r0 = transportMap r" "genCount r0 = genCount r" by (simp_all add: r0_def)
  have fk: "map_of (transportMap r) (g (genCount r)) = None"
    by (rule fresh_key [OF tok ok inj])
  have t1: "map_of (transportMap r1) = map_of (transportMap r) \<or>
            (initializes (run e) \<and>
             map_of (transportMap r1) = (map_of (transportMap r))(g (genCount r) \<mapsto> n))"
    using init_table [of g n r0] by (auto simp: r1_def t0)
  have keep1: "map_of (transportMap r1) k = Some t" if "map_of (transportMap r) k = Some t" for k t
    using t1 that fk by (auto split: if_splits)
  have new1: "k = g (genCount r) \<and> t = n \<and> initializes (run e)"
    if "map_of (transportMap r1) k = Some t" "map_of (transportMap r) k \<noteq> Some t" for k t
    using t1 that by (auto split: if_splits)
  have calls1: "closeCalls (transports r1 ! t) = closeCalls (transports r ! t)"
    if "t < n" for t
    using that by (simp add: r1_def init_closeCalls r0_def n_def nth_append)
  have sid1: "sessionId (transports r1 ! n) = Some (g (genCount r))" if "initializes (run e)"
  proof -
    have "sids r1 ! n = Some (g (genCount r))"
      using that n0 by (simp add: r1_def initializeSession_sids t0)
    then show ?thesis using n1 by (simp add: sids_nth)
  qed
  have r'cases: "r' = r0 \<or> r' = r1 \<or>
                 r' = fst (transportClose cfg \<lparr>closeFails = False, oncloseBeforeFailure = False\<rparr> n r1)"
    using h gen fresh(1)
    by (simp add: r'_def postHandler_def Let_def handleFastifyRequest_def split_beta
        handleRequest_def r0_def [symmetric] n_def [symmetric] r1_def)
  have oc: "onlyCloses r1 r' \<or> r' = r0"
    using r'cases onlyCloses_refl [of r1] onlyCloses_close [OF tok1 ok1 n1, of cfg]
    by auto
  have sids': "sids r' = sids r1 \<or> r' = r0"
    using r'cases by auto
  have callsn: "closeCalls (transports r' ! t) = closeCalls (transports r1 ! t) \<or> r' = r0"
    if "t < n" for t
    using r'cases that n1 by (auto simp: transportClose_closeCalls)
  have a: "map_of (transportMap r') k = Some t" if m: "map_of (transportMap r) k = Some t" for k t
  proof (cases "r' = r0")
    case True
    with m show ?thesis by (simp add: t0)
  next
    case False
    with oc have o: "onlyCloses r1 r'" by simp
    from tableOk_bound [OF tok] m have t: "t < n" by (simp add: n_def)
    show ?thesis
    proof (rule ccontr)
      assume "map_of (transportMap r') k \<noteq> Some t"
      with o keep1 [OF m] have "closeCalls (transports r1 ! t) < closeCalls (transports r' ! t)"
        unfolding onlyCloses_def by blast
      with callsn [OF t] False show False by simp
    qed
  qed
  have b: "t = n \<and> sessionId (transports r' ! t) = Some k"
    if m: "map_of (transportMap r') k = Some t" and nm: "map_of (transportMap r) k \<noteq> Some t"
    for k t
  proof (cases "r' = r0")
    case True
    with m nm show ?thesis by (simp add: t0)
  next
    case False
    with oc have o: "onlyCloses r1 r'" by simp
    with m have "map_of (transportMap r1) k = Some t" unfolding onlyCloses_def by blast
    from new1 [OF this nm] have k: "k = g (genCount r)" "t = n" "initializes (run e)"
      by simp_all
    from o n1 have n': "n < length (transports r')" unfolding onlyCloses_def by simp
    from sids' False have "sids r' ! n = sids r1 ! n" by simp
    with sid1 [OF k(3)] n1 n' have "sessionId (transports r' ! n) = Some (g (genCount r))"
      by (simp add: sids_nth)
    with k show ?thesis by simp
  qed
  show ?thesis
    using a b unfolding r'_def n_def by blast
qed


lemma onlyCloses_step:
  assumes tok: "tableOk r" and ok: "sessionsOk g r"
    and other: "\<not> (\<exists>sid e. ev = Post sid True e \<and> \<not> truthyStr sid)"
  shows "onlyCloses r (reg (step cfg ev r))"
proof (cases ev)
  case (Post sid isInit e)
  show ?thesis
  proof (cases "truthyStr sid \<and> truthy (getProp cfg r (the sid))")
    case True
    with onlyCloses_post_known [OF tok ok True] Post show ?thesis by simp
  next
    case False
    moreover have "\<not> (\<not> truthyStr sid \<and> isInit)" using other Post by auto
    ultimately have "reg (postHandler cfg e sid isInit r) = r"
      by (rule onlyCloses_post_rejected)
    with Post show ?thesis by (simp add: onlyCloses_refl)
  qed
next
  case (Get sid e)
  with onlyCloses_getHandler [OF tok ok] show ?thesis by simp
next
  case (Delete sid e)
  with onlyCloses_deleteHandler [OF tok ok] show ?thesis by simp
next
  case (TransportCloses t cr)
  show ?thesis
  proof (cases "t < length (transports r)")
    case True
    with onlyCloses_close [OF tok ok True] TransportCloses show ?thesis
      by (simp add: silent_def)
  next
    case False
    with TransportCloses show ?thesis by (simp add: silent_def onlyCloses_refl)
  qed
next
  case (Shutdown cl)
  with onlyCloses_shutdownLoop [OF tok ok] show ?thesis
    by (simp add: silent_def onCloseHook_def)
qed

subsection \<open>The table of \<open>registerMcpRoutes\<close>\<close>

lemma tableBase_empty: "tableBase emptyRegistry"
  by (simp add: tableBase_def emptyRegistry_def)

lemma tableBase_upd:
  assumes "tableBase r"
    and "sessionId (f (transports r ! t)) = sessionId (transports r ! t)"
    and "initialized (transports r ! t) \<longrightarrow> initialized (f (transports r ! t))"
  shows "tableBase (updTransport t f r)"
  using assms unfolding tableBase_def
  by (simp add: updTransport_nth)

lemma tableBase_delete: "tableBase r \<Longrightarrow> tableBase (deleteProp k r)"
  unfolding tableBase_def
  by (simp add: deleteProp_def distinct_delete delete_conv')

lemma runOnclose_cases:
  "runOnclose cfg t r = r \<or>
   (\<exists>k. sessionId (transports r ! t) = Some k \<and> runOnclose cfg t r = deleteProp k r)"
  by (cases "sessionId (transports r ! t)")
     (auto simp: runOnclose_def Let_def truthyStr_def split: hook.splits)

lemma tableBase_runOnclose: "tableBase r \<Longrightarrow> tableBase (runOnclose cfg t r)"
  using runOnclose_cases [of cfg t r] tableBase_delete [of r] by auto

lemma tableBase_close: "tableBase r \<Longrightarrow> tableBase (fst (transportClose cfg cr t r))"
  by (simp add: transportClose_def Let_def tableBase_upd tableBase_runOnclose)

lemma runOnsessioninitialized_cases:
  "runOnsessioninitialized t k r = r \<or> runOnsessioninitialized t k r = setProp k t r"
  by (simp add: runOnsessioninitialized_def split: hook.splits)

lemma tableBase_setProp:
  assumes "tableBase r" and "t < length (transports r)"
    and "sessionId (transports r ! t) = Some k"
  shows "tableBase (setProp k t r)"
  using assms unfolding tableBase_def setProp_def
  by (auto simp: update_conv' distinct_update simp del: map_of_eq_Some_iff)

lemma tableBase_init:
  assumes ok: "tableBase r" and t: "t < length (transports r)"
    and fresh: "sessionId (transports r ! t) = None"
  shows "tableBase (initializeSession g t r)"
proof (cases g)
  case None
  have "tableBase (updTransport t (\<lambda>tr. tr\<lparr>initialized := True\<rparr>) r)"
    by (rule tableBase_upd [OF ok]) simp_all
  with None show ?thesis by (simp add: initializeSession_def)
next
  case (Some gen)
  define sid where "sid = gen (genCount r)"
  define r1 where "r1 = updTransport t (\<lambda>tr. tr\<lparr>sessionId := Some sid, initialized := True\<rparr>)
                      (r\<lparr>genCount := Suc (genCount r)\<rparr>)"
  have other: "\<And>k t'. map_of (transportMap r) k = Some t' \<Longrightarrow> t' \<noteq> t"
    using ok fresh unfolding tableBase_def by fastforce
  have proto: "\<And>t'. protoT r = Some t' \<Longrightarrow> t' \<noteq> t"
    using ok fresh unfolding tableBase_def by fastforce
  have ok1: "tableBase r1"
    using ok t other proto unfolding tableBase_def r1_def
    by (auto simp: updTransport_nth)
  have t1: "t < length (transports r1)" "sessionId (transports r1 ! t) = Some sid"
    using t by (simp_all add: r1_def updTransport_nth)
  have ok2: "tableBase (setProp sid t r1)"
    by (rule tableBase_setProp [OF ok1 t1])
  have "initializeSession g t r = runOnsessioninitialized t sid r1"
    using Some by (simp add: initializeSession_def Let_def sid_def r1_def)
  then show ?thesis
    using ok1 ok2 runOnsessioninitialized_cases [of t sid r1] by auto
qed

lemma tableBase_fresh:
  "tableBase r \<Longrightarrow> t < length (transports r) \<Longrightarrow> \<not> initialized (transports r ! t) \<Longrightarrow>
   sessionId (transports r ! t) = None"
  unfolding tableBase_def by blast

lemma tableBase_handleRequest:
  assumes ok: "tableBase r" and t: "t < length (transports r)"
  shows "tableBase (fst (handleRequest cfg g tr isInit t r raw))"
proof -
  define r1 where "r1 = (if initializes tr \<and> isInit \<and> \<not> initialized (transports r ! t)
                then initializeSession g t r else r)"
  have ok1: "tableBase r1"
    using ok tableBase_init [OF ok t tableBase_fresh [OF ok t]] by (simp add: r1_def)
  show ?thesis
    using ok1 tableBase_close [OF ok1]
    by (simp add: handleRequest_def Let_def split_beta r1_def [symmetric])
qed

lemma tableBase_new:
  assumes ok: "tableBase r"
  shows "tableBase (r\<lparr>transports := transports r @ [newTransport h h']\<rparr>)"
  using ok unfolding tableBase_def
  by (auto simp: nth_append newTransport_def less_Suc_eq)

lemma tableBase_getProp:
  "tableBase r \<Longrightarrow> getProp cfg r k = JTransport t \<Longrightarrow>
   t < length (transports r) \<and> initialized (transports r ! t)"
  by (auto simp: tableBase_def getProp_def split: option.splits if_splits)

lemma tableBase_routesPost:
  assumes ok: "tableBase r"
  shows "tableBase (reg (routesPost cfg e sid isInit r))"
proof (cases "truthyStr sid \<and> truthy (getProp cfg r (the sid))")
  case True
  show ?thesis
  proof (cases "getProp cfg r (the sid)")
    case (JTransport t)
    from tableBase_getProp [OF ok JTransport] have t: "t < length (transports r)" by simp
    from tableBase_handleRequest [OF ok t] True JTransport show ?thesis
      by (simp add: routesPost_def split_beta)
  qed (use True ok in \<open>simp_all add: routesPost_def\<close>)
next
  case False
  have new: "\<And>h. tableBase (r\<lparr>transports := transports r @ [newTransport h h]\<rparr>)"
    by (rule tableBase_new [OF ok])
  have "\<And>h. tableBase (fst (handleRequest cfg (sessionIdGenerator cfg) (run e) isInit
                  (length (transports r))
                  (r\<lparr>transports := transports r @ [newTransport h h]\<rparr>) freshRaw))"
    by (rule tableBase_handleRequest [OF new]) simp
  note hr = this
  have c1: "(truthyStr sid \<and> truthy (getProp cfg r (the sid))) = False"
    using False by simp
  show ?thesis
  proof (cases "\<not> truthyStr sid \<and> isInit")
    case True
    then have c2: "(\<not> truthyStr sid \<and> isInit) = True" by simp
    show ?thesis
      by (simp only: routesPost_def c1 c2 if_False if_True)
         (simp add: Let_def split_beta new hr)
  next
    case False
    then have c2: "(\<not> truthyStr sid \<and> isInit) = False" by simp
    show ?thesis
      by (simp only: routesPost_def c1 c2 if_False) (simp add: ok)
  qed
qed

lemma tableBase_handleSessionRequest:
  assumes ok: "tableBase r"
  shows "tableBase (reg (handleSessionRequest cfg e sid r))"
proof (cases "getProp cfg r (the sid)")
  case (JTransport t)
  from tableBase_getProp [OF ok JTransport] have t: "t < length (transports r)" by simp
  from tableBase_handleRequest [OF ok t] JTransport ok show ?thesis
    by (simp add: handleSessionRequest_def split_beta)
qed (use ok in \<open>simp_all add: handleSessionRequest_def\<close>)

lemma tableBase_routesStep: "tableBase r \<Longrightarrow> tableBase (reg (routesStep cfg ev r))"
  by (cases ev)
     (simp_all add: tableBase_routesPost tableBase_handleSessionRequest tableBase_close
        silent_def)

lemma tableBase_routesExec: "tableBase r \<Longrightarrow> tableBase (routesExec cfg evs r)"
  by (induction evs arbitrary: r) (simp_all add: tableBase_routesStep)

lemma reachable_tableBase: "tableBase (routesExec cfg evs emptyRegistry)"
  by (rule tableBase_routesExec [OF tableBase_empty])

lemma sessionsOk_handleRequestB:
  assumes tok: "tableBase r" and ok: "sessionsOk g r" and inj: "inj g"
    and t: "t < length (transports r)"
  shows "sessionsOk g (fst (handleRequest cfg (Some g) tr isInit t r raw))"
proof -
  let ?r1 = "if initializes tr \<and> isInit \<and> \<not> initialized (transports r ! t)
             then initializeSession (Some g) t r else r"
  have "sessionId (transports r ! t) = None" if "\<not> initialized (transports r ! t)"
    using tableBase_fresh [OF tok t that] .
  then have "sessionsOk g ?r1"
    using ok sessionsOk_init [OF ok inj t] by simp
  then show ?thesis
    by (simp only: sessionsOk_cong [OF handleRequest_sids])
qed

lemma sessionsOk_routesPost:
  assumes tok: "tableBase r" and ok: "sessionsOk g r" and inj: "inj g"
    and gen: "sessionIdGenerator cfg = Some g"
  shows "sessionsOk g (reg (routesPost cfg e sid isInit r))"
proof (cases "truthyStr sid \<and> truthy (getProp cfg r (the sid))")
  case True
  show ?thesis
  proof (cases "getProp cfg r (the sid)")
    case (JTransport t)
    from tableBase_getProp [OF tok JTransport] have t: "t < length (transports r)" by simp
    from sessionsOk_handleRequestB [OF tok ok inj t] True JTransport gen show ?thesis
      by (simp add: routesPost_def split_beta)
  qed (use True ok in \<open>simp_all add: routesPost_def\<close>)
next
  case False
  define r0 where "r0 = r\<lparr>transports := transports r @ [newTransport RoutesHook RoutesHook]\<rparr>"
  have tok0: "tableBase r0" unfolding r0_def by (rule tableBase_new [OF tok])
  have ok0: "sessionsOk g r0" unfolding r0_def by (rule sessionsOk_new [OF ok])
  have hr: "sessionsOk g (fst (handleRequest cfg (Some g) (run e) isInit
                  (length (transports r)) r0 freshRaw))"
    by (rule sessionsOk_handleRequestB [OF tok0 ok0 inj]) (simp add: r0_def)
  have c1: "(truthyStr sid \<and> truthy (getProp cfg r (the sid))) = False"
    using False by simp
  have g: "(sessionIdGenerator cfg \<noteq> None) = True" using gen by simp
  show ?thesis
  proof (cases "\<not> truthyStr sid \<and> isInit")
    case True
    then have c2: "(\<not> truthyStr sid \<and> isInit) = True" by simp
    show ?thesis
      by (simp only: routesPost_def c1 c2 g if_False if_True)
         (simp add: Let_def split_beta r0_def [symmetric] gen ok0 hr)
  next
    case False
    then have c2: "(\<not> truthyStr sid \<and> isInit) = False" by simp
    show ?thesis
      by (simp only: routesPost_def c1 c2 if_False) (simp add: ok)
  qed
qed

lemma sessionsOk_handleSessionRequest:
  assumes tok: "tableBase r" and ok: "sessionsOk g r" and inj: "inj g"
    and gen: "sessionIdGenerator cfg = Some g"
  shows "sessionsOk g (reg (handleSessionRequest cfg e sid r))"
proof (cases "getProp cfg r (the sid)")
  case (JTransport t)
  from tableBase_getProp [OF tok JTransport] have t: "t < length (transports r)" by simp
  from sessionsOk_handleRequestB [OF tok ok inj t] JTransport ok gen show ?thesis
    by (simp add: handleSessionRequest_def split_beta)
qed (use ok in \<open>simp_all add: handleSessionRequest_def\<close>)

lemma sessionsOk_routesStep:
  assumes tok: "tableBase r" and ok: "sessionsOk g r" and inj: "inj g"
    and gen: "sessionIdGenerator cfg = Some g"
  shows "sessionsOk g (reg (routesStep cfg ev r))"
proof (cases ev)
  case (Post sid isInit e)
  with sessionsOk_routesPost [OF assms] show ?thesis by simp
next
  case (Get sid e)
  with sessionsOk_handleSessionRequest [OF assms] show ?thesis by simp
next
  case (Delete sid e)
  with sessionsOk_handleSessionRequest [OF assms] show ?thesis by simp
next
  case (TransportCloses t cr)
  with ok show ?thesis by (simp add: silent_def sessionsOk_cong [OF transportClose_sids])
next
  case (Shutdown cl)
  with ok show ?thesis by (simp add: silent_def)
qed

lemma routes_invariants_exec:
  assumes "tableBase r" and "sessionsOk g r" and "inj g" and "sessionIdGenerator cfg = Some g"
  shows "sessionsOk g (routesExec cfg evs r)"
  using assms
proof (induction evs arbitrary: r)
  case Nil
  then show ?case by simp
next
  case (Cons ev evs)
  from Cons.prems have "tableBase (reg (routesStep cfg ev r))"
    "sessionsOk g (reg (routesStep cfg ev r))"
    by (simp_all add: tableBase_routesStep sessionsOk_routesStep)
  with Cons.IH [of "reg (routesStep cfg ev r)"] Cons.prems show ?case by simp
qed

lemma reachable_routes_sessionsOk:
  "inj g \<Longrightarrow> sessionIdGenerator cfg = Some g \<Longrightarrow>
   sessionsOk g (routesExec cfg evs emptyRegistry)"
  using routes_invariants_exec [OF tableBase_empty sessionsOk_empty] by blast


lemma close_tableB:
  assumes t: "t < length (transports r)"
  shows "transportMap (fst (transportClose cfg cr t r)) = transportMap r \<or>
         (\<exists>k. sessionId (transports r ! t) = Some k \<and>
              closed (transports (fst (transportClose cfg cr t r)) ! t) \<and>
              transportMap (fst (transportClose cfg cr t r)) = AList.delete k (transportMap r))"
proof -
  define r1 where "r1 = updTransport t (\<lambda>tr. tr\<lparr>closeCalls := Suc (closeCalls tr)\<rparr>) r"
  define r2 where "r2 = updTransport t (\<lambda>tr. tr\<lparr>closed := True\<rparr>) r1"
  have s: "sessionId (transports r2 ! t) = sessionId (transports r ! t)"
    "closed (transports r2 ! t)" "transportMap r2 = transportMap r" "transportMap r1 = transportMap r"
    using t by (simp_all add: r2_def r1_def updTransport_nth)
  have c: "fst (transportClose cfg cr t r) = r1 \<or> fst (transportClose cfg cr t r) = runOnclose cfg t r2"
    by (simp add: transportClose_def Let_def r1_def r2_def)
  then show ?thesis
  proof
    assume "fst (transportClose cfg cr t r) = r1"
    with s show ?thesis by simp
  next
    assume e: "fst (transportClose cfg cr t r) = runOnclose cfg t r2"
    from runOnclose_cases [of cfg t r2] show ?thesis
    proof
      assume "runOnclose cfg t r2 = r2"
      with e s show ?thesis by simp
    next
      assume "\<exists>k. sessionId (transports r2 ! t) = Some k \<and> runOnclose cfg t r2 = deleteProp k r2"
      then obtain k where k: "sessionId (transports r2 ! t) = Some k"
        and d: "runOnclose cfg t r2 = deleteProp k r2" by blast
      have "sessionId (transports r ! t) = Some k" using k s by simp
      moreover have "closed (transports (fst (transportClose cfg cr t r)) ! t)"
        using e d s by simp
      moreover have "transportMap (fst (transportClose cfg cr t r))
                       = AList.delete k (transportMap r)"
        using e d s by (simp add: deleteProp_def)
      ultimately show ?thesis by blast
    qed
  qed
qed

lemma onlyCloses_closeB:
  assumes tb: "tableBase r" and ok: "sessionsOk g r" and t: "t < length (transports r)"
  shows "onlyCloses r (fst (transportClose cfg cr t r))"
proof -
  let ?r' = "fst (transportClose cfg cr t r)"
  have calls: "closeCalls (transports ?r' ! t')
      = (if t' = t then Suc (closeCalls (transports r ! t)) else closeCalls (transports r ! t'))"
    if "t' < length (transports r)" for t'
    by (rule transportClose_closeCalls [OF that])
  have mono: "\<forall>t' < length (transports r).
         closeCalls (transports r ! t') \<le> closeCalls (transports ?r' ! t') \<and>
         (closed (transports r ! t') \<longrightarrow> closed (transports ?r' ! t'))"
    using calls by (simp add: transportClose_closed_mono)
  from close_tableB [OF t, of cfg cr] show ?thesis
  proof
    assume "transportMap ?r' = transportMap r"
    with mono show ?thesis by (simp add: onlyCloses_def)
  next
    assume "\<exists>k. sessionId (transports r ! t) = Some k \<and> closed (transports ?r' ! t) \<and>
              transportMap ?r' = AList.delete k (transportMap r)"
    then obtain k where sid: "sessionId (transports r ! t) = Some k"
      and c: "closed (transports ?r' ! t)"
      and tab: "transportMap ?r' = AList.delete k (transportMap r)" by blast
    have tab': "map_of (transportMap ?r') = (map_of (transportMap r))(k := None)"
      by (simp add: tab delete_conv')
    have ins: "map_of (transportMap r) k' = Some t'"
      if "map_of (transportMap ?r') k' = Some t'" for k' t'
      using that by (simp add: tab' split: if_splits)
    have rem: "t' = t"
      if "map_of (transportMap r) k' = Some t'" "map_of (transportMap ?r') k' \<noteq> Some t'"
      for k' t'
    proof -
      from that have "k' = k" by (simp add: tab' split: if_splits)
      with that(1) tb have "t' < length (transports r)" "sessionId (transports r ! t') = Some k"
        unfolding tableBase_def by blast+
      with sid t have "t' < length (sids r)" "t < length (sids r)" "sids r ! t' = sids r ! t"
        "sids r ! t' \<noteq> None"
        by (simp_all add: sids_nth)
      with ok show ?thesis unfolding sessionsOk_def by blast
    qed
    have inc: "closeCalls (transports r ! t) < closeCalls (transports ?r' ! t)"
      using calls [OF t] by simp
    show ?thesis
      unfolding onlyCloses_def
    proof (intro conjI allI impI)
      show "length (transports r) \<le> length (transports ?r')" by simp
    next
      fix k' t' assume "map_of (transportMap ?r') k' = Some t'"
      then show "map_of (transportMap r) k' = Some t'" by (rule ins)
    next
      fix k' t'
      assume a: "map_of (transportMap r) k' = Some t' \<and> map_of (transportMap ?r') k' \<noteq> Some t'"
      then have "t' = t" using rem by blast
      with c show "closed (transports ?r' ! t')" by simp
    next
      fix k' t'
      assume a: "map_of (transportMap r) k' = Some t' \<and> map_of (transportMap ?r') k' \<noteq> Some t'"
      then have "t' = t" using rem by blast
      with inc show "closeCalls (transports r ! t') < closeCalls (transports ?r' ! t')" by simp
    next
      fix t' assume "t' < length (transports r)"
      with mono show "closeCalls (transports r ! t') \<le> closeCalls (transports ?r' ! t')"
        by blast
    next
      fix t' assume "t' < length (transports r)" "closed (transports r ! t')"
      with mono show "closed (transports ?r' ! t')" by blast
    qed
  qed
qed

lemma onlyCloses_handleRequestB:
  assumes tb: "tableBase r" and ok: "sessionsOk g r" and t: "t < length (transports r)"
    and ini: "initialized (transports r ! t)"
  shows "onlyCloses r (fst (handleRequest cfg gen tr isInit t r raw))"
  using ini onlyCloses_closeB [OF tb ok t, of cfg] onlyCloses_refl [of r]
  by (simp add: handleRequest_def Let_def split_beta)

lemma onlyCloses_handleSessionRequest:
  assumes tb: "tableBase r" and ok: "sessionsOk g r"
  shows "onlyCloses r (reg (handleSessionRequest cfg e sid r))"
proof (cases "getProp cfg r (the sid)")
  case (JTransport t)
  from tableBase_getProp [OF tb JTransport]
  have t: "t < length (transports r)" "initialized (transports r ! t)" by auto
  from onlyCloses_handleRequestB [OF tb ok t] JTransport onlyCloses_refl [of r] show ?thesis
    by (simp add: handleSessionRequest_def split_beta)
qed (simp_all add: handleSessionRequest_def onlyCloses_refl)

lemma onlyCloses_routesPost_known:
  assumes tb: "tableBase r" and ok: "sessionsOk g r"
    and known: "truthyStr sid \<and> truthy (getProp cfg r (the sid))"
  shows "onlyCloses r (reg (routesPost cfg e sid isInit r))"
proof (cases "getProp cfg r (the sid)")
  case (JTransport t)
  from tableBase_getProp [OF tb JTransport]
  have t: "t < length (transports r)" "initialized (transports r ! t)" by auto
  from onlyCloses_handleRequestB [OF tb ok t] JTransport known show ?thesis
    by (simp add: routesPost_def split_beta)
qed (use known in \<open>simp_all add: routesPost_def onlyCloses_refl\<close>)

lemma routesPost_rejected:
  assumes "\<not> (truthyStr sid \<and> truthy (getProp cfg r (the sid)))" and "\<not> (\<not> truthyStr sid \<and> isInit)"
  shows "reg (routesPost cfg e sid isInit r) = r"
  using assms by (auto simp: routesPost_def)

lemma onlyCloses_routesStep:
  assumes tb: "tableBase r" and ok: "sessionsOk g r"
    and other: "\<not> (\<exists>sid e. ev = Post sid True e \<and> \<not> truthyStr sid)"
  shows "onlyCloses r (reg (routesStep cfg ev r))"
proof (cases ev)
  case (Post sid isInit e)
  show ?thesis
  proof (cases "truthyStr sid \<and> truthy (getProp cfg r (the sid))")
    case True
    with onlyCloses_routesPost_known [OF tb ok True] Post show ?thesis by simp
  next
    case False
    moreover have "\<not> (\<not> truthyStr sid \<and> isInit)" using other Post by auto
    ultimately have "reg (routesPost cfg e sid isInit r) = r"
      by (rule routesPost_rejected)
    with Post show ?thesis by (simp add: onlyCloses_refl)
  qed
next
  case (Get sid e)
  with onlyCloses_handleSessionRequest [OF tb ok] show ?thesis by simp
next
  case (Delete sid e)
  with onlyCloses_handleSessionRequest [OF tb ok] show ?thesis by simp
next
  case (TransportCloses t cr)
  show ?thesis
  proof (cases "t < length (transports r)")
    case True
    with onlyCloses_closeB [OF tb ok True] TransportCloses show ?thesis
      by (simp add: silent_def)
  next
    case False
    with TransportCloses show ?thesis by (simp add: silent_def onlyCloses_refl)
  qed
next
  case (Shutdown cl)
  then show ?thesis by (simp add: silent_def onlyCloses_refl)
qed

lemma fresh_keyB:
  assumes tb: "tableBase r" and ok: "sessionsOk g r" and inj: "inj g"
  shows "map_of (transportMap r) (g (genCount r)) = None"
proof (rule ccontr)
  assume "map_of (transportMap r) (g (genCount r)) \<noteq> None"
  then obtain t where m: "map_of (transportMap r) (g (genCount r)) = Some t" by blast
  with tb have "t < length (transports r)" "sessionId (transports r ! t) = Some (g (genCount r))"
    unfolding tableBase_def by blast+
  then have "t < length (sids r)" "sids r ! t = Some (g (genCount r))" by (simp_all add: sids_nth)
  with ok have "\<exists>i < genCount r. g (genCount r) = g i" unfolding sessionsOk_def by blast
  with inj show False by (auto dest: injD)
qed

lemma new_transport_effect:
  assumes tb: "tableBase r" and ok: "sessionsOk g r" and inj: "inj g"
    and r': "r' = r\<lparr>transports := transports r @ [newTransport h h']\<rparr> \<or>
             r' = fst (handleRequest cfg (Some g) tr True (length (transports r))
                         (r\<lparr>transports := transports r @ [newTransport h h']\<rparr>) raw)"
  shows "(\<forall>k t. map_of (transportMap r) k = Some t \<longrightarrow> map_of (transportMap r') k = Some t) \<and>
         (\<forall>k t. map_of (transportMap r') k = Some t \<and> map_of (transportMap r) k \<noteq> Some t \<longrightarrow>
            t = length (transports r) \<and> sessionId (transports r' ! t) = Some k)"
proof -
  define n where "n = length (transports r)"
  define r0 where "r0 = r\<lparr>transports := transports r @ [newTransport h h']\<rparr>"
  define r1 where "r1 = (if initializes tr then initializeSession (Some g) n r0 else r0)"
  have tb0: "tableBase r0" unfolding r0_def by (rule tableBase_new [OF tb])
  have ok0: "sessionsOk g r0" unfolding r0_def by (rule sessionsOk_new [OF ok])
  have n0: "n < length (transports r0)" by (simp add: r0_def n_def)
  have fresh: "\<not> initialized (transports r0 ! n)" "sessionId (transports r0 ! n) = None"
    by (simp_all add: r0_def n_def newTransport_def)
  have tb1: "tableBase r1"
    using tb0 tableBase_init [OF tb0 n0 fresh(2)] by (simp add: r1_def)
  have ok1: "sessionsOk g r1"
    using ok0 sessionsOk_init [OF ok0 inj n0 fresh(2)] by (simp add: r1_def)
  have n1: "n < length (transports r1)" using n0 by (simp add: r1_def)
  have t0: "transportMap r0 = transportMap r" "genCount r0 = genCount r" by (simp_all add: r0_def)
  have fk: "map_of (transportMap r) (g (genCount r)) = None"
    by (rule fresh_keyB [OF tb ok inj])
  have t1: "map_of (transportMap r1) = map_of (transportMap r) \<or>
            (initializes tr \<and>
             map_of (transportMap r1) = (map_of (transportMap r))(g (genCount r) \<mapsto> n))"
    using init_table [of g n r0] by (auto simp: r1_def t0)
  have keep1: "map_of (transportMap r1) k = Some t" if "map_of (transportMap r) k = Some t" for k t
    using t1 that fk by (auto split: if_splits)
  have new1: "k = g (genCount r) \<and> t = n \<and> initializes tr"
    if "map_of (transportMap r1) k = Some t" "map_of (transportMap r) k \<noteq> Some t" for k t
    using t1 that by (auto split: if_splits)
  have calls1: "closeCalls (transports r1 ! t) = closeCalls (transports r ! t)"
    if "t < n" for t
    using that by (simp add: r1_def init_closeCalls r0_def n_def nth_append)
  have sid1: "sessionId (transports r1 ! n) = Some (g (genCount r))" if "initializes tr"
  proof -
    have "sids r1 ! n = Some (g (genCount r))"
      using that n0 by (simp add: r1_def initializeSession_sids t0)
    then show ?thesis using n1 by (simp add: sids_nth)
  qed
  have "fst (handleRequest cfg (Some g) tr True n r0 raw) = r1 \<or>
        fst (handleRequest cfg (Some g) tr True n r0 raw)
          = fst (transportClose cfg \<lparr>closeFails = False, oncloseBeforeFailure = False\<rparr> n r1)"
    using fresh(1) by (simp add: handleRequest_def Let_def split_beta r1_def)
  with r' have r'cases: "r' = r0 \<or> r' = r1 \<or>
                 r' = fst (transportClose cfg \<lparr>closeFails = False, oncloseBeforeFailure = False\<rparr> n r1)"
    unfolding r0_def [symmetric] n_def [symmetric] by auto
  have oc: "onlyCloses r1 r' \<or> r' = r0"
    using r'cases onlyCloses_refl [of r1] onlyCloses_closeB [OF tb1 ok1 n1, of cfg]
    by auto
  have sids': "sids r' = sids r1 \<or> r' = r0"
    using r'cases by auto
  have callsn: "closeCalls (transports r' ! t) = closeCalls (transports r1 ! t) \<or> r' = r0"
    if "t < n" for t
    using r'cases that n1 by (auto simp: transportClose_closeCalls)
  have bound: "t < n" if "map_of (transportMap r) k = Some t" for k t
    using tb that unfolding tableBase_def n_def by blast
  have a: "map_of (transportMap r') k = Some t" if m: "map_of (transportMap r) k = Some t" for k t
  proof (cases "r' = r0")
    case True
    with m show ?thesis by (simp add: t0)
  next
    case False
    with oc have o: "onlyCloses r1 r'" by simp
    from bound [OF m] have t: "t < n" .
    show ?thesis
    proof (rule ccontr)
      assume "map_of (transportMap r') k \<noteq> Some t"
      with o keep1 [OF m] have "closeCalls (transports r1 ! t) < closeCalls (transports r' ! t)"
        unfolding onlyCloses_def by blast
      with callsn [OF t] False show False by simp
    qed
  qed
  have b: "t = n \<and> sessionId (transports r' ! t) = Some k"
    if m: "map_of (transportMap r') k = Some t" and nm: "map_of (transportMap r) k \<noteq> Some t"
    for k t
  proof (cases "r' = r0")
    case True
    with m nm show ?thesis by (simp add: t0)
  next
    case False
    with oc have o: "onlyCloses r1 r'" by simp
    with m have "map_of (transportMap r1) k = Some t" unfolding onlyCloses_def by blast
    from new1 [OF this nm] have k: "k = g (genCount r)" "t = n" "initializes tr"
      by simp_all
    from o n1 have n': "n < length (transports r')" unfolding onlyCloses_def by simp
    from sids' False have "sids r' ! n = sids r1 ! n" by simp
    with sid1 [OF k(3)] n1 n' have "sessionId (transports r' ! n) = Some (g (genCount r))"
      by (simp add: sids_nth)
    with k show ?thesis by simp
  qed
  show ?thesis
    using a b unfolding n_def by blast
qed

lemma routesPost_new:
  assumes gen: "sessionIdGenerator cfg = Some g" and h: "\<not> truthyStr sid"
  shows "reg (routesPost cfg e sid True r)
           = r\<lparr>transports := transports r @ [newTransport RoutesHook RoutesHook]\<rparr> \<or>
         reg (routesPost cfg e sid True r)
           = fst (handleRequest cfg (Some g) (run e) True (length (transports r))
                   (r\<lparr>transports := transports r @ [newTransport RoutesHook RoutesHook]\<rparr>)
                   freshRaw)"
  using gen h by (simp add: routesPost_def Let_def split_beta)

lemma routes_post_new_effect:
  assumes tb: "tableBase r" and ok: "sessionsOk g r" and inj: "inj g"
    and gen: "sessionIdGenerator cfg = Some g" and h: "\<not> truthyStr sid"
  shows "(\<forall>k t. map_of (transportMap r) k = Some t \<longrightarrow>
            map_of (transportMap (reg (routesPost cfg e sid True r))) k = Some t) \<and>
         (\<forall>k t. map_of (transportMap (reg (routesPost cfg e sid True r))) k = Some t \<and>
                 map_of (transportMap r) k \<noteq> Some t \<longrightarrow>
            t = length (transports r) \<and>
            sessionId (transports (reg (routesPost cfg e sid True r)) ! t) = Some k)"
  by (rule new_transport_effect [OF tb ok inj routesPost_new [OF gen h]])


lemma sessionsOk_unique:
  assumes ok: "sessionsOk g r" and t: "t < length (transports r)" "t' < length (transports r)"
    and s: "sessionId (transports r ! t) = Some k" "sessionId (transports r ! t') = Some k"
  shows "t = t'"
proof -
  from t s have "t < length (sids r)" "t' < length (sids r)" "sids r ! t = sids r ! t'"
    "sids r ! t \<noteq> None"
    by (simp_all add: sids_nth)
  with ok show ?thesis unfolding sessionsOk_def by blast
qed

lemma routes_oneSession_eq:
  "reg (routesPost uuidConfig sseEnv None True emptyRegistry)
     = \<lparr>transportMap = [(''a'', 0)], protoT = None,
        transports = [\<lparr>sessionId = Some ''a'', initialized = True, closed = False,
             closeCalls = 0, onsessioninitialized = RoutesHook, onclose = RoutesHook\<rparr>],
        genCount = 1\<rparr>"
  by (simp add: routesPost_def truthyStr_def emptyRegistry_def sseEnv_def
      sseRun_def uuidConfig_def handleRequest_def Let_def
      newTransport_def initializeSession_def updTransport_def runOnsessioninitialized_def
      setProp_def writeHead_def freshRaw_def rawWrite_def rawEnd_def implicitHead_def)

text \<open>
  Claim C6. In every state that the registry of \<open>registerMcpServer\<close> (\<open>step\<close>, \<open>exec\<close>) or
  of \<open>registerMcpRoutes\<close> (\<open>routesStep\<close>, \<open>routesExec\<close>) can reach, and after every event,
  the keys of the table are distinct. Let the generator return unique values. Then for
  every event: an entry that is new in the table was inserted by the on-session-initialized
  hook of the Transport created for this initialization POST, under the identifier that
  Transport was assigned; an entry that is gone belongs to a Transport that was closed by
  this event (it is Closed, and \<open>close()\<close> was called on it); and no two Transports were
  assigned the same identifier, so at most one Transport is bound to an identifier.
\<close>

theorem table_changes_only_by_init_and_close:
  "distinct (map fst (transportMap (reg (step cfg ev (exec cfg evs emptyRegistry))))) \<and>
   distinct (map fst (transportMap
     (reg (routesStep cfg ev (routesExec cfg evs emptyRegistry))))) \<and>
   (sessionIdGenerator cfg = Some g \<and> inj g \<longrightarrow>
     (\<forall>k t. map_of (transportMap (reg (step cfg ev (exec cfg evs emptyRegistry)))) k = Some t \<and>
             map_of (transportMap (exec cfg evs emptyRegistry)) k \<noteq> Some t \<longrightarrow>
        (\<exists>sid e. ev = Post sid True e \<and> \<not> truthyStr sid) \<and>
        t = length (transports (exec cfg evs emptyRegistry)) \<and>
        sessionId (transports (reg (step cfg ev (exec cfg evs emptyRegistry))) ! t) = Some k) \<and>
     (\<forall>k t. map_of (transportMap (exec cfg evs emptyRegistry)) k = Some t \<and>
             map_of (transportMap (reg (step cfg ev (exec cfg evs emptyRegistry)))) k \<noteq> Some t \<longrightarrow>
        closed (transports (reg (step cfg ev (exec cfg evs emptyRegistry))) ! t) \<and>
        closeCalls (transports (exec cfg evs emptyRegistry) ! t)
          < closeCalls (transports (reg (step cfg ev (exec cfg evs emptyRegistry))) ! t)) \<and>
     (\<forall>k t t'. t < length (transports (reg (step cfg ev (exec cfg evs emptyRegistry)))) \<and>
             t' < length (transports (reg (step cfg ev (exec cfg evs emptyRegistry)))) \<and>
             sessionId (transports (reg (step cfg ev (exec cfg evs emptyRegistry))) ! t) = Some k \<and>
             sessionId (transports (reg (step cfg ev (exec cfg evs emptyRegistry))) ! t') = Some k
        \<longrightarrow> t = t') \<and>
     (\<forall>k t. map_of (transportMap (reg (routesStep cfg ev (routesExec cfg evs emptyRegistry)))) k
               = Some t \<and>
             map_of (transportMap (routesExec cfg evs emptyRegistry)) k \<noteq> Some t \<longrightarrow>
        (\<exists>sid e. ev = Post sid True e \<and> \<not> truthyStr sid) \<and>
        t = length (transports (routesExec cfg evs emptyRegistry)) \<and>
        sessionId (transports (reg (routesStep cfg ev (routesExec cfg evs emptyRegistry))) ! t)
          = Some k) \<and>
     (\<forall>k t. map_of (transportMap (routesExec cfg evs emptyRegistry)) k = Some t \<and>
             map_of (transportMap (reg (routesStep cfg ev (routesExec cfg evs emptyRegistry)))) k
               \<noteq> Some t \<longrightarrow>
        closed (transports (reg (routesStep cfg ev (routesExec cfg evs emptyRegistry))) ! t) \<and>
        closeCalls (transports (routesExec cfg evs emptyRegistry) ! t)
          < closeCalls (transports (reg (routesStep cfg ev (routesExec cfg evs emptyRegistry))) ! t)) \<and>
     (\<forall>k t t'.
         t < length (transports (reg (routesStep cfg ev (routesExec cfg evs emptyRegistry)))) \<and>
         t' < length (transports (reg (routesStep cfg ev (routesExec cfg evs emptyRegistry)))) \<and>
         sessionId (transports (reg (routesStep cfg ev (routesExec cfg evs emptyRegistry))) ! t)
           = Some k \<and>
         sessionId (transports (reg (routesStep cfg ev (routesExec cfg evs emptyRegistry))) ! t')
           = Some k
        \<longrightarrow> t = t'))"
proof -
  define r where "r = exec cfg evs emptyRegistry"
  define r' where "r' = reg (step cfg ev r)"
  define q where "q = routesExec cfg evs emptyRegistry"
  define q' where "q' = reg (routesStep cfg ev q)"
  have tok: "tableOk r" unfolding r_def by (rule reachable_tableOk)
  have tb: "tableBase q" unfolding q_def by (rule reachable_tableBase)
  have d1: "distinct (map fst (transportMap r'))"
    using tableOk_step [OF tok, of cfg ev] by (simp add: r'_def tableOk_def)
  have d2: "distinct (map fst (transportMap q'))"
    using tableBase_routesStep [OF tb, of cfg ev] by (simp add: q'_def tableBase_def)
  have main: "(\<forall>k t. map_of (transportMap r') k = Some t \<and> map_of (transportMap r) k \<noteq> Some t \<longrightarrow>
            (\<exists>sid e. ev = Post sid True e \<and> \<not> truthyStr sid) \<and>
            t = length (transports r) \<and> sessionId (transports r' ! t) = Some k) \<and>
        (\<forall>k t. map_of (transportMap r) k = Some t \<and> map_of (transportMap r') k \<noteq> Some t \<longrightarrow>
            closed (transports r' ! t) \<and>
            closeCalls (transports r ! t) < closeCalls (transports r' ! t)) \<and>
        (\<forall>k t t'. t < length (transports r') \<and> t' < length (transports r') \<and>
            sessionId (transports r' ! t) = Some k \<and> sessionId (transports r' ! t') = Some k
            \<longrightarrow> t = t') \<and>
        (\<forall>k t. map_of (transportMap q') k = Some t \<and> map_of (transportMap q) k \<noteq> Some t \<longrightarrow>
            (\<exists>sid e. ev = Post sid True e \<and> \<not> truthyStr sid) \<and>
            t = length (transports q) \<and> sessionId (transports q' ! t) = Some k) \<and>
        (\<forall>k t. map_of (transportMap q) k = Some t \<and> map_of (transportMap q') k \<noteq> Some t \<longrightarrow>
            closed (transports q' ! t) \<and>
            closeCalls (transports q ! t) < closeCalls (transports q' ! t)) \<and>
        (\<forall>k t t'. t < length (transports q') \<and> t' < length (transports q') \<and>
            sessionId (transports q' ! t) = Some k \<and> sessionId (transports q' ! t') = Some k
            \<longrightarrow> t = t')" (is ?M)
    if gen: "sessionIdGenerator cfg = Some g" and inj: "inj g"
  proof -
    have ok: "sessionsOk g r" unfolding r_def by (rule reachable_sessionsOk [OF inj gen])
    have okq: "sessionsOk g q" unfolding q_def by (rule reachable_routes_sessionsOk [OF inj gen])
    have ok': "sessionsOk g r'" unfolding r'_def by (rule sessionsOk_step [OF tok ok inj gen])
    have okq': "sessionsOk g q'"
      unfolding q'_def by (rule sessionsOk_routesStep [OF tb okq inj gen])
    have u1: "\<forall>k t t'. t < length (transports r') \<and> t' < length (transports r') \<and>
            sessionId (transports r' ! t) = Some k \<and> sessionId (transports r' ! t') = Some k
            \<longrightarrow> t = t'"
      using sessionsOk_unique [OF ok'] by blast
    have u2: "\<forall>k t t'. t < length (transports q') \<and> t' < length (transports q') \<and>
            sessionId (transports q' ! t) = Some k \<and> sessionId (transports q' ! t') = Some k
            \<longrightarrow> t = t'"
      using sessionsOk_unique [OF okq'] by blast
    have s: "(\<forall>k t. map_of (transportMap r') k = Some t \<and> map_of (transportMap r) k \<noteq> Some t \<longrightarrow>
            (\<exists>sid e. ev = Post sid True e \<and> \<not> truthyStr sid) \<and>
            t = length (transports r) \<and> sessionId (transports r' ! t) = Some k) \<and>
        (\<forall>k t. map_of (transportMap r) k = Some t \<and> map_of (transportMap r') k \<noteq> Some t \<longrightarrow>
            closed (transports r' ! t) \<and>
            closeCalls (transports r ! t) < closeCalls (transports r' ! t))"
    proof (cases "\<exists>sid e. ev = Post sid True e \<and> \<not> truthyStr sid")
      case True
      then obtain sid e where ev: "ev = Post sid True e" and h: "\<not> truthyStr sid" by blast
      from post_new_effect [OF tok ok inj gen h, of e] show ?thesis
        using True unfolding r'_def ev by auto
    next
      case False
      from onlyCloses_step [OF tok ok False, of cfg] show ?thesis
        unfolding onlyCloses_def r'_def by blast
    qed
    have p: "(\<forall>k t. map_of (transportMap q') k = Some t \<and> map_of (transportMap q) k \<noteq> Some t \<longrightarrow>
            (\<exists>sid e. ev = Post sid True e \<and> \<not> truthyStr sid) \<and>
            t = length (transports q) \<and> sessionId (transports q' ! t) = Some k) \<and>
        (\<forall>k t. map_of (transportMap q) k = Some t \<and> map_of (transportMap q') k \<noteq> Some t \<longrightarrow>
            closed (transports q' ! t) \<and>
            closeCalls (transports q ! t) < closeCalls (transports q' ! t))"
    proof (cases "\<exists>sid e. ev = Post sid True e \<and> \<not> truthyStr sid")
      case True
      then obtain sid e where ev: "ev = Post sid True e" and h: "\<not> truthyStr sid" by blast
      from routes_post_new_effect [OF tb okq inj gen h, of e] show ?thesis
        using True unfolding q'_def ev by auto
    next
      case False
      from onlyCloses_routesStep [OF tb okq False, of cfg] show ?thesis
        unfolding onlyCloses_def q'_def by blast
    qed
    show ?thesis
      by (intro conjI)
         (rule conjunct1 [OF s] conjunct2 [OF s] u1 conjunct1 [OF p] conjunct2 [OF p] u2)+
  qed
  have imp: "sessionIdGenerator cfg = Some g \<and> inj g \<longrightarrow> ?M"
  proof (rule impI)
    assume a: "sessionIdGenerator cfg = Some g \<and> inj g"
    show ?M by (rule main [OF conjunct1 [OF a] conjunct2 [OF a]])
  qed
  have "distinct (map fst (transportMap r')) \<and> distinct (map fst (transportMap q')) \<and>
        (sessionIdGenerator cfg = Some g \<and> inj g \<longrightarrow> ?M)"
    by (rule conjI [OF d1 conjI [OF d2 imp]])
  then show ?thesis unfolding r'_def r_def q'_def q_def .
qed

theorem table_changes_only_by_init_and_close_witness:
  "sessionId (transports (reg (step uuidConfig (Post None True sseEnv)
      (exec uuidConfig [] emptyRegistry))) ! 0) = Some ''a'' \<and>
   sessionId (transports (reg (routesStep uuidConfig (Post None True sseEnv)
      (routesExec uuidConfig [] emptyRegistry))) ! 0) = Some ''a'' \<and>
   closed (transports (reg (step uuidConfig (Delete (Some ''a'') sseEnv)
      (exec uuidConfig [Post None True sseEnv] emptyRegistry))) ! 0) \<and>
   closed (transports (reg (routesStep uuidConfig (TransportCloses 0 closeOk)
      (routesExec uuidConfig [Post None True sseEnv] emptyRegistry))) ! 0) \<and>
   distinct (map fst (transportMap (reg (routesStep uuidConfig (Post None True sseEnv)
      (routesExec uuidConfig [] emptyRegistry)))))"
proof -
  have g: "sessionIdGenerator uuidConfig = Some (\<lambda>n. replicate (Suc n) CHR ''a'') \<and>
           inj (\<lambda>n. replicate (Suc n) CHR ''a'')"
    using uuid_inj by (simp add: uuidConfig_def)
  have a1: "map_of (transportMap (reg (step uuidConfig (Post None True sseEnv)
      (exec uuidConfig [] emptyRegistry)))) ''a'' = Some 0 \<and>
      map_of (transportMap (exec uuidConfig [] emptyRegistry)) ''a'' \<noteq> Some 0"
    by (simp add: oneSession_def [symmetric] oneSession_eq) (simp add: emptyRegistry_def)
  have a2: "map_of (transportMap (reg (routesStep uuidConfig (Post None True sseEnv)
      (routesExec uuidConfig [] emptyRegistry)))) ''a'' = Some 0 \<and>
      map_of (transportMap (routesExec uuidConfig [] emptyRegistry)) ''a'' \<noteq> Some 0"
    by (simp add: routes_oneSession_eq) (simp add: emptyRegistry_def)
  have b: "map_of (transportMap (exec uuidConfig [Post None True sseEnv] emptyRegistry)) ''a''
             = Some 0 \<and>
      map_of (transportMap (reg (step uuidConfig (Delete (Some ''a'') sseEnv)
      (exec uuidConfig [Post None True sseEnv] emptyRegistry)))) ''a'' \<noteq> Some 0"
    by (simp only: exec_oneSession)
       (simp add: oneSession_eq deleteHandler_def truthyStr_def truthy_def getProp_def
          transportClose_def sseEnv_def closeOk_def Let_def updTransport_def runOnclose_def
          deleteProp_def)
  have c: "map_of (transportMap (routesExec uuidConfig [Post None True sseEnv] emptyRegistry))
              ''a'' = Some 0 \<and>
      map_of (transportMap (reg (routesStep uuidConfig (TransportCloses 0 closeOk)
      (routesExec uuidConfig [Post None True sseEnv] emptyRegistry)))) ''a'' \<noteq> Some 0"
    by (simp add: routes_oneSession_eq silent_def transportClose_def closeOk_def Let_def
          updTransport_def runOnclose_def truthyStr_def deleteProp_def)
  note A = table_changes_only_by_init_and_close [where cfg = uuidConfig
      and g = "\<lambda>n. replicate (Suc n) CHR ''a''" and ev = "Post None True sseEnv" and evs = "[]"]
  note B = table_changes_only_by_init_and_close [where cfg = uuidConfig
      and g = "\<lambda>n. replicate (Suc n) CHR ''a''" and ev = "Delete (Some ''a'') sseEnv"
      and evs = "[Post None True sseEnv]"]
  note C = table_changes_only_by_init_and_close [where cfg = uuidConfig
      and g = "\<lambda>n. replicate (Suc n) CHR ''a''" and ev = "TransportCloses 0 closeOk"
      and evs = "[Post None True sseEnv]"]
  note MA = A [THEN conjunct2, THEN conjunct2, THEN mp, OF g]
  note MB = B [THEN conjunct2, THEN conjunct2, THEN mp, OF g]
  note MC = C [THEN conjunct2, THEN conjunct2, THEN mp, OF g]
  have l: "length (transports (exec uuidConfig [] emptyRegistry)) = 0"
    "length (transports (routesExec uuidConfig [] emptyRegistry)) = 0"
    by (simp_all add: emptyRegistry_def)
  from MA [THEN conjunct1] a1 l
  have 1: "sessionId (transports (reg (step uuidConfig (Post None True sseEnv)
      (exec uuidConfig [] emptyRegistry))) ! 0) = Some ''a''"
    by blast
  from MA [THEN conjunct2, THEN conjunct2, THEN conjunct2, THEN conjunct1] a2 l
  have 2: "sessionId (transports (reg (routesStep uuidConfig (Post None True sseEnv)
      (routesExec uuidConfig [] emptyRegistry))) ! 0) = Some ''a''"
    by blast
  from MB [THEN conjunct2, THEN conjunct1] b
  have 3: "closed (transports (reg (step uuidConfig (Delete (Some ''a'') sseEnv)
      (exec uuidConfig [Post None True sseEnv] emptyRegistry))) ! 0)"
    by blast
  from MC [THEN conjunct2, THEN conjunct2, THEN conjunct2, THEN conjunct2, THEN conjunct1] c
  have 4: "closed (transports (reg (routesStep uuidConfig (TransportCloses 0 closeOk)
      (routesExec uuidConfig [Post None True sseEnv] emptyRegistry))) ! 0)"
    by blast
  note 5 = A [THEN conjunct2, THEN conjunct1]
  show ?thesis by (rule conjI [OF 1 conjI [OF 2 conjI [OF 3 conjI [OF 4 5]]]])
qed

end
